theory Spec2Isabelle
  imports Main "HOL-Library.AList"
begin

section \<open>Data model\<close>

text \<open>
  Object ids are natural numbers; two ids are the same id exactly when their
  \<^verbatim>\<open>toString()\<close> forms agree, which is how the source compares them.
  Timestamps (\<^verbatim>\<open>createdAt\<close>, \<^verbatim>\<open>updatedAt\<close>, \<^verbatim>\<open>deletedAt\<close>) and logging
  are left out: no operation below branches on them. \<^verbatim>\<open>populate\<close> replaces an id by
  the referenced document in the returned copy only; a returned document keeps ids here.
\<close>

type_synonym oid = nat

datatype room_type = Direct | Group | Channel

datatype message_type = Text | Image | File | Audio | Video | System

text \<open>
  The errors a call can raise. \<open>NotFoundError\<close>, \<open>BadRequestError\<close> and
  \<open>AuthorizationError\<close> are the \<^verbatim>\<open>AppError\<close> subclasses of \<^verbatim>\<open>utils/errors.ts\<close>.
  \<open>PlainError\<close> is a bare \<^verbatim>\<open>new Error(...)\<close> as thrown by the schema hooks and
  methods, \<open>ValidationFailure\<close> the failure of a declarative field validator,
  \<open>DuplicateKey\<close> a rejected insert on the unique index, \<open>StoreFailure\<close> and
  \<open>CacheFailure\<close> an unavailable record store or cache.
\<close>

datatype err =
    NotFoundError
  | BadRequestError
  | AuthorizationError
  | PlainError
  | ValidationFailure
  | DuplicateKey
  | StoreFailure
  | CacheFailure

record room =
  rid :: oid
  name :: "string option"
  rtype :: room_type
  description :: string
  avatar :: "string option"
  participants :: "oid list"
  admins :: "oid list"
  createdBy :: oid
  lastMessage :: "oid option"
  isActive :: bool

record message =
  mid :: oid
  mroom :: oid
  sender :: oid
  content :: string
  mtype :: message_type
  fileUrl :: "string option"
  fileName :: "string option"
  fileSize :: "nat option"
  readBy :: "oid list"
  isEdited :: bool
  isDeleted :: bool
  replyTo :: "oid option"

text \<open>The cache keys of \<^verbatim>\<open>REDIS_KEYS\<close> that the services use.\<close>

datatype rkey =
    USER_SESSION oid
  | USER_ONLINE oid
  | ONLINE_USERS
  | USER_ROOMS oid
  | UNREAD_COUNT oid oid

text \<open>
  The state of the two external collaborators. \<open>users\<close>, \<open>rooms\<close> and \<open>messages\<close>
  are the collections of the record store in insertion order; \<open>kv\<close> holds the scalar
  cache keys with their value and expiry in seconds, \<open>sets\<close> the members of the cache
  sets. \<open>dbUp\<close> and \<open>redisUp\<close> say whether the record store and the cache answer;
  \<open>uniqueIndex\<close> is the store's decision whether the unique index on
  \<^verbatim>\<open>{type, participants}\<close> admits a new room next to the stored ones.
\<close>

record store =
  users :: "oid list"
  rooms :: "room list"
  messages :: "message list"
  kv :: "(rkey \<times> string \<times> nat option) list"
  sets :: "(rkey \<times> oid) list"
  dbUp :: bool
  redisUp :: bool
  uniqueIndex :: "room list \<Rightarrow> room \<Rightarrow> bool"

text \<open>
  One reading of the unique index: a multikey index has one key per array element, and
  the uniqueness holds across documents, so a new direct room is refused when it shares a
  participant with a stored direct room.
\<close>

definition multikeyUnique :: "room list \<Rightarrow> room \<Rightarrow> bool" where
  "multikeyUnique rs r =
     (if rtype r = Direct
      then list_all (\<lambda>r'. if rtype r' = Direct
                          then list_all (\<lambda>p. p \<notin> set (participants r')) (participants r)
                          else True) rs
      else True)"

section \<open>Calls as state transformers with errors\<close>

text \<open>
  An asynchronous call takes the store and returns either the raised error or the result,
  together with the store as the call left it: what was written before an error stays
  written.
\<close>

type_synonym 'a io = "store \<Rightarrow> (err + 'a) \<times> store"

definition ret :: "'a \<Rightarrow> 'a io" where
  "ret x s = (Inr x, s)"

definition throw :: "err \<Rightarrow> 'a io" where
  "throw e s = (Inl e, s)"

definition bnd :: "'a io \<Rightarrow> ('a \<Rightarrow> 'b io) \<Rightarrow> 'b io" where
  "bnd m f s = (case m s of (Inl e, s') \<Rightarrow> (Inl e, s') | (Inr x, s') \<Rightarrow> f x s')"

definition catch :: "'a io \<Rightarrow> (err \<Rightarrow> 'a io) \<Rightarrow> 'a io" where
  "catch m h s = (case m s of (Inl e, s') \<Rightarrow> h e s' | (Inr x, s') \<Rightarrow> (Inr x, s'))"

subsection \<open>Cache primitives (\<^verbatim>\<open>config/redis.ts\<close>)\<close>

definition redis_get :: "rkey \<Rightarrow> string option io" where
  "redis_get k s =
     (if redisUp s then (Inr (map_option fst (map_of (kv s) k)), s) else (Inl CacheFailure, s))"

definition redis_set :: "rkey \<Rightarrow> string \<Rightarrow> nat option \<Rightarrow> unit io" where
  "redis_set k v expirySeconds s =
     (if redisUp s then (Inr (), s\<lparr>kv := AList.update k (v, expirySeconds) (kv s)\<rparr>)
      else (Inl CacheFailure, s))"

definition redis_del :: "rkey \<Rightarrow> unit io" where
  "redis_del k s =
     (if redisUp s
      then (Inr (), s\<lparr>kv := AList.delete k (kv s), sets := filter (\<lambda>p. fst p \<noteq> k) (sets s)\<rparr>)
      else (Inl CacheFailure, s))"

definition redis_sAdd :: "rkey \<Rightarrow> oid \<Rightarrow> unit io" where
  "redis_sAdd k m s =
     (if redisUp s then (Inr (), s\<lparr>sets := List.insert (k, m) (sets s)\<rparr>)
      else (Inl CacheFailure, s))"

definition redis_sRem :: "rkey \<Rightarrow> oid \<Rightarrow> unit io" where
  "redis_sRem k m s =
     (if redisUp s then (Inr (), s\<lparr>sets := removeAll (k, m) (sets s)\<rparr>)
      else (Inl CacheFailure, s))"

subsection \<open>Record-store primitives\<close>

definition freshId :: "oid list \<Rightarrow> oid" where
  "freshId ids = Suc (foldr max ids 0)"

definition User_find :: "(oid \<Rightarrow> bool) \<Rightarrow> oid list io" where
  "User_find P s = (if dbUp s then (Inr (filter P (users s)), s) else (Inl StoreFailure, s))"

definition User_findById :: "oid \<Rightarrow> oid option io" where
  "User_findById u s =
     (if dbUp s then (Inr (find (\<lambda>x. x = u) (users s)), s) else (Inl StoreFailure, s))"

definition User_deleteOne :: "oid \<Rightarrow> unit io" where
  "User_deleteOne u s =
     (if dbUp s then (Inr (), s\<lparr>users := removeAll u (users s)\<rparr>) else (Inl StoreFailure, s))"

definition Room_findById :: "oid \<Rightarrow> room option io" where
  "Room_findById i s =
     (if dbUp s then (Inr (find (\<lambda>r. rid r = i) (rooms s)), s) else (Inl StoreFailure, s))"

definition Room_findOne :: "(room \<Rightarrow> bool) \<Rightarrow> room option io" where
  "Room_findOne P s = (if dbUp s then (Inr (find P (rooms s)), s) else (Inl StoreFailure, s))"

definition Room_find :: "(room \<Rightarrow> bool) \<Rightarrow> room list io" where
  "Room_find P s = (if dbUp s then (Inr (filter P (rooms s)), s) else (Inl StoreFailure, s))"

definition Room_updateMany :: "(room \<Rightarrow> bool) \<Rightarrow> (room \<Rightarrow> room) \<Rightarrow> unit io" where
  "Room_updateMany P f s =
     (if dbUp s then (Inr (), s\<lparr>rooms := map (\<lambda>r. if P r then f r else r) (rooms s)\<rparr>)
      else (Inl StoreFailure, s))"

definition Message_findById :: "oid \<Rightarrow> message option io" where
  "Message_findById i s =
     (if dbUp s then (Inr (find (\<lambda>m. mid m = i) (messages s)), s) else (Inl StoreFailure, s))"

definition Message_countDocuments :: "(message \<Rightarrow> bool) \<Rightarrow> nat io" where
  "Message_countDocuments P s =
     (if dbUp s then (Inr (length (filter P (messages s))), s) else (Inl StoreFailure, s))"

definition Message_updateMany :: "(message \<Rightarrow> bool) \<Rightarrow> (message \<Rightarrow> message) \<Rightarrow> unit io" where
  "Message_updateMany P f s =
     (if dbUp s then (Inr (), s\<lparr>messages := map (\<lambda>m. if P m then f m else m) (messages s)\<rparr>)
      else (Inl StoreFailure, s))"

subsection \<open>Strings\<close>

definition isWhiteSpace :: "char \<Rightarrow> bool" where
  "isWhiteSpace c = (c \<in> set [CHR '' '', CHR 0x09, CHR 0x0A, CHR 0x0B, CHR 0x0C, CHR 0x0D])"

definition trim :: "string \<Rightarrow> string" where
  "trim s = rev (dropWhile isWhiteSpace (rev (dropWhile isWhiteSpace s)))"

text \<open>JavaScript truthiness of an optional string: \<^verbatim>\<open>undefined\<close>, \<^verbatim>\<open>null\<close> and \<^verbatim>\<open>''\<close> are falsy.\<close>

definition truthy :: "string option \<Rightarrow> bool" where
  "truthy x = (case x of None \<Rightarrow> False | Some v \<Rightarrow> v \<noteq> [])"

section \<open>The Room model (schema hooks and methods)\<close>

text \<open>
  A document as \<^verbatim>\<open>Room.create\<close> builds it from the given paths: the schema defaults for
  the others, the \<^verbatim>\<open>trim\<close> setter on the name. The id is assigned on insertion.
\<close>

definition Room_new ::
  "string option \<Rightarrow> room_type \<Rightarrow> string \<Rightarrow> oid list \<Rightarrow> oid list \<Rightarrow> oid \<Rightarrow> room" where
  "Room_new n t d ps ads c =
     \<lparr>rid = 0, name = map_option trim n, rtype = t, description = d, avatar = None,
      participants = ps, admins = ads, createdBy = c, lastMessage = None, isActive = True\<rparr>"

text \<open>The two \<^verbatim>\<open>pre('validate')\<close> hooks, in the order they are registered.\<close>

definition room_preValidate :: "room \<Rightarrow> err option" where
  "room_preValidate r =
     (if rtype r = Direct \<and> length (participants r) \<noteq> 2 then Some PlainError
      else if (rtype r = Group \<or> rtype r = Channel) \<and> \<not> truthy (name r) then Some PlainError
      else None)"

text \<open>The \<^verbatim>\<open>maxlength\<close> validators of the name and the description.\<close>

definition room_nameValid :: "room \<Rightarrow> bool" where
  "room_nameValid r = (case name r of None \<Rightarrow> True | Some n \<Rightarrow> length n \<le> 100)"

definition room_descriptionValid :: "room \<Rightarrow> bool" where
  "room_descriptionValid r = (length (description r) \<le> 500)"

text \<open>The \<^verbatim>\<open>pre('save')\<close> hook: a new room gets its creator as participant and admin.\<close>

definition room_preSave :: "bool \<Rightarrow> room \<Rightarrow> room" where
  "room_preSave isNew r =
     (if isNew then
        (let r1 = (if createdBy r \<notin> set (participants r)
                   then r\<lparr>participants := participants r @ [createdBy r]\<rparr> else r)
         in (if createdBy r1 \<notin> set (admins r1)
             then r1\<lparr>admins := admins r1 @ [createdBy r1]\<rparr> else r1))
      else r)"

text \<open>
  \<^verbatim>\<open>Room.create\<close>: validation (hooks, then field validators), the save hook, then the
  insert, which the unique index may refuse.
\<close>

definition Room_create :: "room \<Rightarrow> room io" where
  "Room_create r0 s =
     (if \<not> dbUp s then (Inl StoreFailure, s)
      else case room_preValidate r0 of
        Some e \<Rightarrow> (Inl e, s)
      | None \<Rightarrow>
          if \<not> (room_nameValid r0 \<and> room_descriptionValid r0) then (Inl ValidationFailure, s)
          else
            (let r1 = (room_preSave True r0)\<lparr>rid := freshId (map rid (rooms s))\<rparr>
             in if uniqueIndex s (rooms s) r1
                then (Inr r1, s\<lparr>rooms := rooms s @ [r1]\<rparr>)
                else (Inl DuplicateKey, s)))"

text \<open>
  \<^verbatim>\<open>room.save()\<close> on a stored room: the validate hooks run on every save, a field
  validator only on a modified path, so the caller passes whether the paths it modified
  are valid. The stored document with the same id is replaced.
\<close>

definition Room_save :: "bool \<Rightarrow> room \<Rightarrow> unit io" where
  "Room_save modifiedValid r s =
     (if \<not> dbUp s then (Inl StoreFailure, s)
      else case room_preValidate r of
        Some e \<Rightarrow> (Inl e, s)
      | None \<Rightarrow>
          if \<not> modifiedValid then (Inl ValidationFailure, s)
          else (Inr (), s\<lparr>rooms := map (\<lambda>x. if rid x = rid r then room_preSave False r else x) (rooms s)\<rparr>))"

definition isParticipant :: "room \<Rightarrow> oid \<Rightarrow> bool" where
  "isParticipant r userId = (userId \<in> set (participants r))"

definition isAdmin :: "room \<Rightarrow> oid \<Rightarrow> bool" where
  "isAdmin r userId = (userId \<in> set (admins r))"

text \<open>
  The mutating methods change the loaded document and save it; they return the document
  as it is in memory afterwards.
\<close>

definition room_addParticipant :: "room \<Rightarrow> oid \<Rightarrow> room io" where
  "room_addParticipant r userId =
     (if userId \<notin> set (participants r)
      then (let r' = r\<lparr>participants := participants r @ [userId]\<rparr>
            in bnd (Room_save True r') (\<lambda>_. ret r'))
      else ret r)"

definition room_removeParticipant :: "room \<Rightarrow> oid \<Rightarrow> room io" where
  "room_removeParticipant r userId =
     (let r' = r\<lparr>participants := filter (\<lambda>i. i \<noteq> userId) (participants r),
                 admins := filter (\<lambda>i. i \<noteq> userId) (admins r)\<rparr>
      in bnd (Room_save True r') (\<lambda>_. ret r'))"

definition room_makeAdmin :: "room \<Rightarrow> oid \<Rightarrow> room io" where
  "room_makeAdmin r userId =
     (if isParticipant r userId \<and> \<not> isAdmin r userId
      then (let r' = r\<lparr>admins := admins r @ [userId]\<rparr>
            in bnd (Room_save True r') (\<lambda>_. ret r'))
      else ret r)"

definition room_removeAdmin :: "room \<Rightarrow> oid \<Rightarrow> room io" where
  "room_removeAdmin r userId =
     (if userId = createdBy r then throw PlainError
      else (let r' = r\<lparr>admins := filter (\<lambda>i. i \<noteq> userId) (admins r)\<rparr>
            in bnd (Room_save True r') (\<lambda>_. ret r')))"

section \<open>The Message model (schema hooks and methods)\<close>

definition Message_new ::
  "oid \<Rightarrow> oid \<Rightarrow> string \<Rightarrow> message_type \<Rightarrow> string option \<Rightarrow> string option \<Rightarrow> nat option \<Rightarrow>
   oid option \<Rightarrow> oid list \<Rightarrow> message" where
  "Message_new r u c t url fname fsize rep rd =
     \<lparr>mid = 0, mroom = r, sender = u, content = trim c, mtype = t, fileUrl = url,
      fileName = fname, fileSize = fsize, readBy = rd, isEdited = False, isDeleted = False,
      replyTo = rep\<rparr>"

text \<open>The \<^verbatim>\<open>pre('validate')\<close> hook: a file message needs a file URL.\<close>

definition message_preValidate :: "message \<Rightarrow> err option" where
  "message_preValidate m =
     (if (mtype m = Image \<or> mtype m = File \<or> mtype m = Audio \<or> mtype m = Video)
         \<and> \<not> truthy (fileUrl m)
      then Some PlainError else None)"

text \<open>The validators of the content: \<^verbatim>\<open>required\<close> and \<^verbatim>\<open>maxlength\<close>.\<close>

definition message_contentRequired :: "message \<Rightarrow> bool" where
  "message_contentRequired m = (content m \<noteq> [])"

definition message_contentValid :: "message \<Rightarrow> bool" where
  "message_contentValid m = (length (content m) \<le> 5000)"

text \<open>
  The \<^verbatim>\<open>post('save')\<close> hook points the room's \<^verbatim>\<open>lastMessage\<close> at the saved message; it
  catches its own failure and does not rethrow.
\<close>

definition Room_findByIdAndUpdate :: "oid \<Rightarrow> (room \<Rightarrow> room) \<Rightarrow> unit io" where
  "Room_findByIdAndUpdate i f s =
     (if dbUp s then (Inr (), s\<lparr>rooms := map (\<lambda>r. if rid r = i then f r else r) (rooms s)\<rparr>)
      else (Inl StoreFailure, s))"

definition message_postSave :: "message \<Rightarrow> unit io" where
  "message_postSave doc =
     catch (Room_findByIdAndUpdate (mroom doc) (\<lambda>r. r\<lparr>lastMessage := Some (mid doc)\<rparr>))
           (\<lambda>e. ret ())"

definition Message_create :: "message \<Rightarrow> message io" where
  "Message_create m0 s =
     (if \<not> dbUp s then (Inl StoreFailure, s)
      else case message_preValidate m0 of
        Some e \<Rightarrow> (Inl e, s)
      | None \<Rightarrow>
          if \<not> (message_contentRequired m0 \<and> message_contentValid m0) then (Inl ValidationFailure, s)
          else
            (let m1 = m0\<lparr>mid := freshId (map mid (messages s))\<rparr>
             in bnd (message_postSave m1) (\<lambda>_. ret m1) (s\<lparr>messages := messages s @ [m1]\<rparr>)))"

text \<open>
  \<^verbatim>\<open>message.save()\<close> on a stored message; a required path is validated on every save,
  the other validators only on a modified path.
\<close>

definition Message_save :: "bool \<Rightarrow> message \<Rightarrow> unit io" where
  "Message_save modifiedValid m s =
     (if \<not> dbUp s then (Inl StoreFailure, s)
      else case message_preValidate m of
        Some e \<Rightarrow> (Inl e, s)
      | None \<Rightarrow>
          if \<not> (message_contentRequired m \<and> modifiedValid) then (Inl ValidationFailure, s)
          else message_postSave m
                 (s\<lparr>messages := map (\<lambda>x. if mid x = mid m then m else x) (messages s)\<rparr>))"

definition message_markAsRead :: "message \<Rightarrow> oid \<Rightarrow> message io" where
  "message_markAsRead m userId =
     (if userId \<notin> set (readBy m)
      then (let m' = m\<lparr>readBy := readBy m @ [userId]\<rparr>
            in bnd (Message_save True m') (\<lambda>_. ret m'))
      else ret m)"


text \<open>
  The documents a query for the unread messages of a user in a room matches:
  \<^verbatim>\<open>{room, sender: {$ne: userId}, readBy: {$ne: userId}, isDeleted: false}\<close>.
\<close>

definition unreadFilter :: "oid \<Rightarrow> oid \<Rightarrow> message \<Rightarrow> bool" where
  "unreadFilter roomId userId m =
     (mroom m = roomId \<and> sender m \<noteq> userId \<and> userId \<notin> set (readBy m) \<and> \<not> isDeleted m)"

text \<open>\<^verbatim>\<open>$addToSet\<close> and \<^verbatim>\<open>$pull\<close> on an array path.\<close>

definition addToSet :: "oid \<Rightarrow> oid list \<Rightarrow> oid list" where
  "addToSet x xs = (if x \<in> set xs then xs else xs @ [x])"

definition pull :: "oid \<Rightarrow> oid list \<Rightarrow> oid list" where
  "pull x xs = filter (\<lambda>i. i \<noteq> x) xs"

section \<open>The User model\<close>

text \<open>
  The \<^verbatim>\<open>pre('remove')\<close> hook of the user schema. It is document middleware of
  \<^verbatim>\<open>remove\<close>: it runs when a user document's \<^verbatim>\<open>remove()\<close> is called.
\<close>

definition user_preRemove :: "oid \<Rightarrow> unit io" where
  "user_preRemove u =
     bnd (Room_updateMany (\<lambda>r. u \<in> set (participants r))
            (\<lambda>r. r\<lparr>participants := pull u (participants r), admins := pull u (admins r)\<rparr>))
       (\<lambda>_. Message_updateMany (\<lambda>m. sender m = u) (\<lambda>m. m\<lparr>isDeleted := True\<rparr>))"

section \<open>RoomService\<close>

record createRoomDTO =
  dname :: "string option"
  dtype :: room_type
  ddescription :: "string option"
  participantIds :: "oid list"

record updateRoomDTO =
  uname :: "string option"
  udescription :: "string option"
  uavatar :: "string option"

text \<open>The loop that registers a room in the membership index of each participant.\<close>

fun sAddAll :: "oid list \<Rightarrow> oid \<Rightarrow> unit io" where
  "sAddAll [] roomId s = (Inr (), s)"
| "sAddAll (p # ps) roomId s =
     (case redis_sAdd (USER_ROOMS p) roomId s of
        (Inl e, s') \<Rightarrow> (Inl e, s')
      | (Inr _, s') \<Rightarrow> sAddAll ps roomId s')"

fun sRemAll :: "oid list \<Rightarrow> oid \<Rightarrow> unit io" where
  "sRemAll [] roomId s = (Inr (), s)"
| "sRemAll (p # ps) roomId s =
     (case redis_sRem (USER_ROOMS p) roomId s of
        (Inl e, s') \<Rightarrow> (Inl e, s')
      | (Inr _, s') \<Rightarrow> sRemAll ps roomId s')"

text \<open>The query \<^verbatim>\<open>{type: DIRECT, participants: {$all: [a, b]}}\<close>.\<close>

definition directRoomOf :: "oid \<Rightarrow> oid \<Rightarrow> room \<Rightarrow> bool" where
  "directRoomOf a b r = (rtype r = Direct \<and> a \<in> set (participants r) \<and> b \<in> set (participants r))"

definition createRoom :: "oid \<Rightarrow> createRoomDTO \<Rightarrow> room io" where
  "createRoom userId data =
     bnd (User_find (\<lambda>u. u \<in> set (participantIds data))) (\<lambda>us.
       if length us \<noteq> length (participantIds data) then throw BadRequestError
       else if dtype data = Direct then
         (case participantIds data of
            [other] \<Rightarrow>
              bnd (Room_findOne (directRoomOf userId other)) (\<lambda>existingRoom.
                case existingRoom of
                  Some r \<Rightarrow> ret r
                | None \<Rightarrow>
                    bnd (Room_create (Room_new None Direct [] [userId, other] [] userId)) (\<lambda>room.
                    bnd (redis_sAdd (USER_ROOMS userId) (rid room)) (\<lambda>_.
                    bnd (redis_sAdd (USER_ROOMS other) (rid room)) (\<lambda>_.
                    ret room))))
          | _ \<Rightarrow> throw BadRequestError)
       else if (case dname data of None \<Rightarrow> True | Some n \<Rightarrow> n = [] \<or> trim n = [])
         then throw BadRequestError
       else
         bnd (Room_create
                (Room_new (dname data) (dtype data)
                   (case ddescription data of None \<Rightarrow> [] | Some d \<Rightarrow> d)
                   (participantIds data @ [userId]) [userId] userId)) (\<lambda>room.
         bnd (sAddAll (participantIds data @ [userId]) (rid room)) (\<lambda>_.
         ret room)))"

definition getOrCreateDirectRoom :: "oid \<Rightarrow> oid \<Rightarrow> room io" where
  "getOrCreateDirectRoom userId otherUserId =
     bnd (User_findById otherUserId) (\<lambda>otherUser.
       case otherUser of
         None \<Rightarrow> throw NotFoundError
       | Some _ \<Rightarrow>
           bnd (Room_findOne (directRoomOf userId otherUserId)) (\<lambda>existingRoom.
             case existingRoom of
               Some r \<Rightarrow> ret r
             | None \<Rightarrow>
                 createRoom userId
                   \<lparr>dname = None, dtype = Direct, ddescription = None,
                    participantIds = [otherUserId]\<rparr>))"

definition updateRoom :: "oid \<Rightarrow> oid \<Rightarrow> updateRoomDTO \<Rightarrow> room io" where
  "updateRoom roomId userId data =
     bnd (Room_findById roomId) (\<lambda>found.
       case found of
         None \<Rightarrow> throw NotFoundError
       | Some room \<Rightarrow>
           if \<not> isAdmin room userId then throw AuthorizationError
           else if rtype room = Direct then throw BadRequestError
           else
             (let room1 = (case uname data of None \<Rightarrow> room
                           | Some n \<Rightarrow> room\<lparr>name := Some (trim n)\<rparr>);
                  room2 = (case udescription data of None \<Rightarrow> room1
                           | Some d \<Rightarrow> room1\<lparr>description := d\<rparr>);
                  room3 = (case uavatar data of None \<Rightarrow> room2
                           | Some a \<Rightarrow> room2\<lparr>avatar := Some a\<rparr>)
              in bnd (Room_save ((uname data = None \<or> room_nameValid room3) \<and>
                                 (udescription data = None \<or> room_descriptionValid room3)) room3)
                   (\<lambda>_. ret room3)))"

definition deleteRoom :: "oid \<Rightarrow> oid \<Rightarrow> unit io" where
  "deleteRoom roomId userId =
     bnd (Room_findById roomId) (\<lambda>found.
       case found of
         None \<Rightarrow> throw NotFoundError
       | Some room \<Rightarrow>
           if createdBy room \<noteq> userId \<and> \<not> isAdmin room userId then throw AuthorizationError
           else
             bnd (Room_save True (room\<lparr>isActive := False\<rparr>)) (\<lambda>_.
             sRemAll (participants room) roomId))"

text \<open>The loop of \<^verbatim>\<open>addParticipants\<close>; the loaded room is updated along the way.\<close>

fun addLoop :: "room \<Rightarrow> oid \<Rightarrow> oid list \<Rightarrow> room io" where
  "addLoop room roomId [] s = (Inr room, s)"
| "addLoop room roomId (p # ps) s =
     (case room_addParticipant room p s of
        (Inl e, s') \<Rightarrow> (Inl e, s')
      | (Inr room', s') \<Rightarrow>
          (case redis_sAdd (USER_ROOMS p) roomId s' of
             (Inl e, s'') \<Rightarrow> (Inl e, s'')
           | (Inr _, s'') \<Rightarrow> addLoop room' roomId ps s''))"

definition addParticipants :: "oid \<Rightarrow> oid \<Rightarrow> oid list \<Rightarrow> room io" where
  "addParticipants roomId userId pids =
     bnd (Room_findById roomId) (\<lambda>found.
       case found of
         None \<Rightarrow> throw NotFoundError
       | Some room \<Rightarrow>
           if \<not> isAdmin room userId then throw AuthorizationError
           else if rtype room = Direct then throw BadRequestError
           else
             bnd (User_find (\<lambda>u. u \<in> set pids)) (\<lambda>us.
               if length us \<noteq> length pids then throw BadRequestError
               else addLoop room roomId pids))"

definition removeParticipant :: "oid \<Rightarrow> oid \<Rightarrow> oid \<Rightarrow> room io" where
  "removeParticipant roomId userId participantId =
     bnd (Room_findById roomId) (\<lambda>found.
       case found of
         None \<Rightarrow> throw NotFoundError
       | Some room \<Rightarrow>
           if \<not> (userId = participantId) \<and> \<not> isAdmin room userId then throw AuthorizationError
           else if rtype room = Direct then throw BadRequestError
           else if createdBy room = participantId then throw BadRequestError
           else
             bnd (room_removeParticipant room participantId) (\<lambda>room'.
             bnd (redis_sRem (USER_ROOMS participantId) roomId) (\<lambda>_.
             ret room')))"

definition leaveRoom :: "oid \<Rightarrow> oid \<Rightarrow> room io" where
  "leaveRoom roomId userId = removeParticipant roomId userId userId"

definition makeAdmin :: "oid \<Rightarrow> oid \<Rightarrow> oid \<Rightarrow> room io" where
  "makeAdmin roomId userId targetUserId =
     bnd (Room_findById roomId) (\<lambda>found.
       case found of
         None \<Rightarrow> throw NotFoundError
       | Some room \<Rightarrow>
           if \<not> isAdmin room userId then throw AuthorizationError
           else if rtype room = Direct then throw BadRequestError
           else room_makeAdmin room targetUserId)"

definition removeAdmin :: "oid \<Rightarrow> oid \<Rightarrow> oid \<Rightarrow> room io" where
  "removeAdmin roomId userId targetUserId =
     bnd (Room_findById roomId) (\<lambda>found.
       case found of
         None \<Rightarrow> throw NotFoundError
       | Some room \<Rightarrow>
           if \<not> isAdmin room userId then throw AuthorizationError
           else room_removeAdmin room targetUserId)"

section \<open>MessageService\<close>

record sendMessageDTO =
  sm_roomId :: oid
  sm_content :: string
  sm_type :: "message_type option"
  sm_replyTo :: "oid option"

text \<open>
  A JavaScript number as the unread counters return it: an integer, or \<^verbatim>\<open>NaN\<close> when
  \<^verbatim>\<open>parseInt\<close> finds no digits.
\<close>

datatype jsnum = Num int | NaN

definition isDigit :: "char \<Rightarrow> bool" where
  "isDigit c = ((48::nat) \<le> of_char c \<and> of_char c \<le> (57::nat))"

definition digitChar :: "nat \<Rightarrow> char" where
  "digitChar d = char_of (48 + d)"

text \<open>\<^verbatim>\<open>count.toString()\<close> of a non-negative integer: its decimal digits.\<close>

fun natToString :: "nat \<Rightarrow> string" where
  "natToString n =
     (if n < 10 then [digitChar n] else natToString (n div 10) @ [digitChar (n mod 10)])"

declare natToString.simps [simp del]

text \<open>
  \<^verbatim>\<open>parseInt(s, 10)\<close>: leading white space is skipped, a sign is read, then the longest
  run of decimal digits; without a digit the result is \<^verbatim>\<open>NaN\<close>.
\<close>

definition digitsValue :: "string \<Rightarrow> nat" where
  "digitsValue ds = foldl (\<lambda>acc c. acc * 10 + (of_char c - (48::nat))) 0 ds"

definition parseInt :: "string \<Rightarrow> jsnum" where
  "parseInt str =
     (let t = dropWhile isWhiteSpace str;
          neg = (case t of c # _ \<Rightarrow> c = CHR ''-'' | [] \<Rightarrow> False);
          body = (case t of c # cs \<Rightarrow> (if c = CHR ''-'' \<or> c = CHR ''+'' then cs else t) | [] \<Rightarrow> t);
          ds = takeWhile isDigit body
      in if ds = [] then NaN
         else Num (if neg then - int (digitsValue ds) else int (digitsValue ds)))"

definition sendMessage :: "oid \<Rightarrow> sendMessageDTO \<Rightarrow> message io" where
  "sendMessage userId data =
     (let roomId = sm_roomId data in
      bnd (Room_findById roomId) (\<lambda>found.
        case found of
          None \<Rightarrow> throw NotFoundError
        | Some room \<Rightarrow>
            if \<not> isParticipant room userId then throw AuthorizationError
            else
              bnd (Message_create
                     (Message_new roomId userId (sm_content data)
                        (case sm_type data of None \<Rightarrow> Text | Some t \<Rightarrow> t)
                        None None None (sm_replyTo data) [userId])) (\<lambda>message.
              bnd (Room_save True (room\<lparr>lastMessage := Some (mid message)\<rparr>)) (\<lambda>_.
              bnd (redis_del (UNREAD_COUNT userId roomId)) (\<lambda>_.
              ret message)))))"

definition sendFileMessage ::
  "oid \<Rightarrow> oid \<Rightarrow> string \<Rightarrow> string \<Rightarrow> nat \<Rightarrow> message_type \<Rightarrow> message io" where
  "sendFileMessage userId roomId url fname fsize messageType =
     bnd (Room_findById roomId) (\<lambda>found.
       case found of
         None \<Rightarrow> throw NotFoundError
       | Some room \<Rightarrow>
           if \<not> isParticipant room userId then throw AuthorizationError
           else
             bnd (Message_create
                    (Message_new roomId userId fname messageType (Some url) (Some fname)
                       (Some fsize) None [userId])) (\<lambda>message.
             bnd (Room_save True (room\<lparr>lastMessage := Some (mid message)\<rparr>)) (\<lambda>_.
             ret message)))"

definition updateMessage :: "oid \<Rightarrow> oid \<Rightarrow> string \<Rightarrow> message io" where
  "updateMessage messageId userId newContent =
     bnd (Message_findById messageId) (\<lambda>found.
       case found of
         None \<Rightarrow> throw NotFoundError
       | Some m \<Rightarrow>
           if sender m \<noteq> userId then throw AuthorizationError
           else if isDeleted m then throw BadRequestError
           else if mtype m \<noteq> Text then throw BadRequestError
           else
             (let m' = m\<lparr>content := trim newContent, isEdited := True\<rparr>
              in bnd (Message_save (message_contentValid m') m') (\<lambda>_. ret m')))"

definition deleteMessage :: "oid \<Rightarrow> oid \<Rightarrow> unit io" where
  "deleteMessage messageId userId =
     bnd (Message_findById messageId) (\<lambda>found.
       case found of
         None \<Rightarrow> throw NotFoundError
       | Some m \<Rightarrow>
           bnd (Room_findById (mroom m)) (\<lambda>room.
             (let isSender = (sender m = userId);
                  isAdm = (case room of None \<Rightarrow> False | Some r \<Rightarrow> isAdmin r userId)
              in if \<not> isSender \<and> \<not> isAdm then throw AuthorizationError
                 else Message_save True (m\<lparr>isDeleted := True\<rparr>))))"

definition markMessageAsRead :: "oid \<Rightarrow> oid \<Rightarrow> unit io" where
  "markMessageAsRead messageId userId =
     bnd (Message_findById messageId) (\<lambda>found.
       case found of
         None \<Rightarrow> throw NotFoundError
       | Some m \<Rightarrow>
           bnd (Room_findById (mroom m)) (\<lambda>room.
             case room of
               None \<Rightarrow> throw AuthorizationError
             | Some r \<Rightarrow>
                 if \<not> isParticipant r userId then throw AuthorizationError
                 else bnd (message_markAsRead m userId) (\<lambda>_. ret ())))"

definition markRoomAsRead :: "oid \<Rightarrow> oid \<Rightarrow> unit io" where
  "markRoomAsRead roomId userId =
     bnd (Room_findById roomId) (\<lambda>found.
       case found of
         None \<Rightarrow> throw NotFoundError
       | Some room \<Rightarrow>
           if \<not> isParticipant room userId then throw AuthorizationError
           else
             bnd (Message_updateMany (unreadFilter roomId userId)
                    (\<lambda>m. m\<lparr>readBy := addToSet userId (readBy m)\<rparr>)) (\<lambda>_.
             redis_del (UNREAD_COUNT userId roomId)))"

text \<open>
  The two counters wrap their whole body in \<^verbatim>\<open>try\<close>; the \<^verbatim>\<open>catch\<close> block logs the
  error and returns \<^verbatim>\<open>0\<close>.
\<close>

definition getUnreadCount :: "oid \<Rightarrow> oid \<Rightarrow> jsnum io" where
  "getUnreadCount roomId userId =
     catch
       (bnd (redis_get (UNREAD_COUNT userId roomId)) (\<lambda>cachedCount.
          case cachedCount of
            Some c \<Rightarrow> ret (parseInt c)
          | None \<Rightarrow>
              bnd (Message_countDocuments (unreadFilter roomId userId)) (\<lambda>count.
              bnd (redis_set (UNREAD_COUNT userId roomId) (natToString count) (Some 300)) (\<lambda>_.
              ret (Num (int count))))))
       (\<lambda>error. ret (Num 0))"

definition getTotalUnreadCount :: "oid \<Rightarrow> jsnum io" where
  "getTotalUnreadCount userId =
     catch
       (bnd (Room_find (\<lambda>r. userId \<in> set (participants r) \<and> isActive r)) (\<lambda>rs.
          (let roomIds = map rid rs in
           bnd (Message_countDocuments
                  (\<lambda>m. mroom m \<in> set roomIds \<and> sender m \<noteq> userId \<and>
                       userId \<notin> set (readBy m) \<and> \<not> isDeleted m)) (\<lambda>count.
           ret (Num (int count))))))
       (\<lambda>error. ret (Num 0))"

section \<open>UserService\<close>

text \<open>
  \<^verbatim>\<open>deleteAccount\<close> loads the user and calls \<^verbatim>\<open>user.deleteOne()\<close>, then clears the
  user's cache keys. The user schema registers its cleanup as \<^verbatim>\<open>pre('remove')\<close>
  middleware and none for \<^verbatim>\<open>deleteOne\<close>, so \<^verbatim>\<open>deleteOne()\<close> runs no hook of the schema.
\<close>

definition deleteAccount :: "oid \<Rightarrow> unit io" where
  "deleteAccount userId =
     bnd (User_findById userId) (\<lambda>found.
       case found of
         None \<Rightarrow> throw NotFoundError
       | Some user \<Rightarrow>
           bnd (User_deleteOne user) (\<lambda>_.
           bnd (redis_del (USER_SESSION userId)) (\<lambda>_.
           bnd (redis_del (USER_ONLINE userId)) (\<lambda>_.
           redis_sRem ONLINE_USERS userId))))"

section \<open>Sequences of calls\<close>

text \<open>
  The calls that write to the record store or the cache, as one datatype, with the store
  each leaves behind. Between calls the environment may register a user, expire or change
  cache entries, and take the record store or the cache down or up.
\<close>

datatype call =
    CreateRoom oid createRoomDTO
  | GetOrCreateDirectRoom oid oid
  | UpdateRoom oid oid updateRoomDTO
  | DeleteRoom oid oid
  | AddParticipants oid oid "oid list"
  | RemoveParticipant oid oid oid
  | LeaveRoom oid oid
  | MakeAdmin oid oid oid
  | RemoveAdmin oid oid oid
  | SendMessage oid sendMessageDTO
  | SendFileMessage oid oid string string nat message_type
  | UpdateMessage oid oid string
  | DeleteMessage oid oid
  | MarkMessageAsRead oid oid
  | MarkRoomAsRead oid oid
  | GetUnreadCount oid oid
  | GetTotalUnreadCount oid
  | DeleteAccount oid

datatype outcome = Failed err | Done

definition outcomeOf :: "(err + 'a) \<times> store \<Rightarrow> outcome \<times> store" where
  "outcomeOf r = (case r of (Inl e, s') \<Rightarrow> (Failed e, s') | (Inr _, s') \<Rightarrow> (Done, s'))"

fun run :: "call \<Rightarrow> store \<Rightarrow> outcome \<times> store" where
  "run (CreateRoom u d) s = outcomeOf (createRoom u d s)"
| "run (GetOrCreateDirectRoom u v) s = outcomeOf (getOrCreateDirectRoom u v s)"
| "run (UpdateRoom r u d) s = outcomeOf (updateRoom r u d s)"
| "run (DeleteRoom r u) s = outcomeOf (deleteRoom r u s)"
| "run (AddParticipants r u ps) s = outcomeOf (addParticipants r u ps s)"
| "run (RemoveParticipant r u p) s = outcomeOf (removeParticipant r u p s)"
| "run (LeaveRoom r u) s = outcomeOf (leaveRoom r u s)"
| "run (MakeAdmin r u t) s = outcomeOf (makeAdmin r u t s)"
| "run (RemoveAdmin r u t) s = outcomeOf (removeAdmin r u t s)"
| "run (SendMessage u d) s = outcomeOf (sendMessage u d s)"
| "run (SendFileMessage u r url fname fsize t) s = outcomeOf (sendFileMessage u r url fname fsize t s)"
| "run (UpdateMessage m u c) s = outcomeOf (updateMessage m u c s)"
| "run (DeleteMessage m u) s = outcomeOf (deleteMessage m u s)"
| "run (MarkMessageAsRead m u) s = outcomeOf (markMessageAsRead m u s)"
| "run (MarkRoomAsRead r u) s = outcomeOf (markRoomAsRead r u s)"
| "run (GetUnreadCount r u) s = outcomeOf (getUnreadCount r u s)"
| "run (GetTotalUnreadCount u) s = outcomeOf (getTotalUnreadCount u s)"
| "run (DeleteAccount u) s = outcomeOf (deleteAccount u s)"

definition emptyStore :: "(room list \<Rightarrow> room \<Rightarrow> bool) \<Rightarrow> store" where
  "emptyStore idx =
     \<lparr>users = [], rooms = [], messages = [], kv = [], sets = [], dbUp = True, redisUp = True,
      uniqueIndex = idx\<rparr>"

inductive reachable :: "store \<Rightarrow> bool" where
  start: "reachable (emptyStore idx)"
| call: "reachable s \<Longrightarrow> reachable (snd (run c s))"
| register: "reachable s \<Longrightarrow> u \<notin> set (users s) \<Longrightarrow> reachable (s\<lparr>users := users s @ [u]\<rparr>)"
| environment:
    "reachable s \<Longrightarrow> reachable (s\<lparr>kv := k, sets := t, dbUp := d, redisUp := c\<rparr>)"

section \<open>Example stores\<close>

text \<open>A group room created by user 1 with user 2 as second participant; user 3 is outside.\<close>

definition demoRoom :: room where
  "demoRoom = \<lparr>rid = 1, name = Some ''team'', rtype = Group, description = [], avatar = None,
               participants = [1, 2], admins = [1], createdBy = 1, lastMessage = None,
               isActive = True\<rparr>"

definition demoStore :: store where
  "demoStore = \<lparr>users = [1, 2, 3], rooms = [demoRoom], messages = [], kv = [], sets = [],
                dbUp = True, redisUp = True, uniqueIndex = multikeyUnique\<rparr>"




definition demoMessage :: message where
  "demoMessage = \<lparr>mid = 1, mroom = 1, sender = 1, content = ''hi'', mtype = Text, fileUrl = None,
                  fileName = None, fileSize = None, readBy = [1], isEdited = False,
                  isDeleted = False, replyTo = None\<rparr>"

text \<open>The demo store with one message, sent by user 2 or by user 1.\<close>

definition unreadMessage :: message where
  "unreadMessage = demoMessage\<lparr>sender := 2, readBy := [2]\<rparr>"

definition unreadStore :: store where
  "unreadStore = demoStore\<lparr>messages := [unreadMessage]\<rparr>"

definition sentStore :: store where
  "sentStore = demoStore\<lparr>messages := [demoMessage]\<rparr>"




section \<open>The direct-room key of a room\<close>

text \<open>
  What the deduplication of direct rooms looks at in a stored room: its id and, for a
  direct room, the set of its participants. A key \<open>covers\<close> another when both belong to
  direct rooms and every participant of the second is a participant of the first; the
  query of \<open>createRoom\<close> for an existing direct room matches exactly the rooms whose key
  covers the key of the room it would create. \<open>dedupInv\<close>: users and room ids are
  distinct, and no stored room's key is covered by the key of a room stored before it.
  \<open>keeps K U m Q\<close>: run on a store with room keys \<open>K\<close> and users \<open>U\<close>, the call
  \<open>m\<close> leaves both as they are, and a result it returns satisfies \<open>Q\<close>.
\<close>

definition directKey :: "room \<Rightarrow> oid set option" where
  "directKey r = (if rtype r = Direct then Some (set (participants r)) else None)"

definition keyOf :: "room \<Rightarrow> oid \<times> oid set option" where
  "keyOf r = (rid r, directKey r)"

definition roomKeys :: "store \<Rightarrow> (oid \<times> oid set option) list" where
  "roomKeys s = map keyOf (rooms s)"

definition covers :: "oid \<times> oid set option \<Rightarrow> oid \<times> oid set option \<Rightarrow> bool" where
  "covers k k' = (case snd k of None \<Rightarrow> False
                  | Some P \<Rightarrow> (case snd k' of None \<Rightarrow> False | Some P' \<Rightarrow> P' \<subseteq> P))"

definition dedupInv :: "store \<Rightarrow> bool" where
  "dedupInv s = (distinct (users s) \<and> distinct (map fst (roomKeys s)) \<and>
                 sorted_wrt (\<lambda>k k'. \<not> covers k k') (roomKeys s))"

definition keeps :: "(oid \<times> oid set option) list \<Rightarrow> oid list \<Rightarrow> 'a io \<Rightarrow> ('a \<Rightarrow> bool) \<Rightarrow> bool" where
  "keeps K U m Q =
     (\<forall>s. roomKeys s = K \<and> users s = U \<longrightarrow>
          roomKeys (snd (m s)) = K \<and> users (snd (m s)) = U \<and> (\<forall>x. fst (m s) = Inr x \<longrightarrow> Q x))"

section \<open>Example stores with a direct room\<close>

text \<open>
  The store after users 1 and 2 registered and user 1 created the direct room with user
  2, and the request for a direct room with a given other user.
\<close>

definition directRoom :: room where
  "directRoom = \<lparr>rid = 1, name = None, rtype = Direct, description = [], avatar = None,
                 participants = [1, 2], admins = [1], createdBy = 1, lastMessage = None,
                 isActive = True\<rparr>"

definition directStore :: store where
  "directStore = \<lparr>users = [1, 2], rooms = [directRoom], messages = [], kv = [],
                  sets = [(USER_ROOMS 2, 1), (USER_ROOMS 1, 1)], dbUp = True, redisUp = True,
                  uniqueIndex = multikeyUnique\<rparr>"

definition directWith :: "oid \<Rightarrow> createRoomDTO" where
  "directWith other = \<lparr>dname = None, dtype = Direct, ddescription = None, participantIds = [other]\<rparr>"

text \<open>
  The rooms user 3 gets from \<open>createRoom\<close> on the demo store: a direct room with user
  2, and a group or channel with users 1 and 2.
\<close>

definition newDirect :: room where
  "newDirect = \<lparr>rid = 2, name = None, rtype = Direct, description = [], avatar = None,
                participants = [3, 2], admins = [3], createdBy = 3, lastMessage = None,
                isActive = True\<rparr>"

definition groupDTO :: "room_type \<Rightarrow> createRoomDTO" where
  "groupDTO t = \<lparr>dname = Some ''dev'', dtype = t, ddescription = None, participantIds = [1, 2]\<rparr>"

definition newGroup :: "room_type \<Rightarrow> room" where
  "newGroup t = \<lparr>rid = 2, name = Some ''dev'', rtype = t, description = [], avatar = None,
                 participants = [1, 2, 3], admins = [3], createdBy = 3, lastMessage = None,
                 isActive = True\<rparr>"

section \<open>Properties\<close>

lemmas io_defs = bnd_def ret_def throw_def catch_def

lemma find_map_update:
  assumes "\<And>x. k x = i \<Longrightarrow> k (f x) = i"
  shows "find (\<lambda>x. k x = i) (map (\<lambda>x. if k x = i then f x else x) xs)
         = map_option f (find (\<lambda>x. k x = i) xs)"
  using assms by (induction xs) auto


lemma demoStore_find1: "find (\<lambda>r. rid r = 1) (rooms demoStore) = Some demoRoom"
  by (simp add: demoStore_def demoRoom_def)

subsection \<open>Soft-deleted messages in the read view\<close>



subsection \<open>Promoting a non-participant\<close>

text \<open>
  C10. In a group or channel room, \<open>makeAdmin\<close> called by an admin for a target that is
  not a participant, or is an admin already, raises nothing, returns the room as it was
  and leaves the store (so the admins of the room) unchanged.
\<close>

theorem makeAdmin_noop:
  assumes "dbUp s" and "find (\<lambda>r. rid r = roomId) (rooms s) = Some room"
    and "isAdmin room userId" and "rtype room \<noteq> Direct"
    and "\<not> isParticipant room target \<or> isAdmin room target"
  shows "makeAdmin roomId userId target s = (Inr room, s)"
  using assms by (auto simp: makeAdmin_def room_makeAdmin_def Room_findById_def io_defs)

theorem makeAdmin_noop_witness:
  "makeAdmin 1 1 3 demoStore = (Inr demoRoom, demoStore) \<and>
   makeAdmin 1 1 1 demoStore = (Inr demoRoom, demoStore)"
proof -
  have up: "dbUp demoStore" by (simp add: demoStore_def)
  have adm: "isAdmin demoRoom 1" by (simp add: isAdmin_def demoRoom_def)
  have ty: "rtype demoRoom \<noteq> Direct" by (simp add: demoRoom_def)
  have out: "\<not> isParticipant demoRoom 3 \<or> isAdmin demoRoom 3"
    by (simp add: isParticipant_def demoRoom_def)
  have again: "\<not> isParticipant demoRoom 1 \<or> isAdmin demoRoom 1" using adm by simp
  show ?thesis
    using makeAdmin_noop [OF up demoStore_find1 adm ty out]
      makeAdmin_noop [OF up demoStore_find1 adm ty again]
    by simp
qed

subsection \<open>Demoting the creator\<close>

text \<open>
  C7. \<open>removeAdmin\<close> with the creator as target, called by an admin of the room: the
  call fails and the store is unchanged, but the error is the bare \<open>PlainError\<close> thrown
  by the schema method, neither \<open>AuthorizationError\<close> nor \<open>BadRequestError\<close>. Here
  user 1, creator and admin of room 1, is both caller and target.
\<close>

theorem removeAdmin_creator_plain_error:
  "removeAdmin 1 1 1 demoStore = (Inl PlainError, demoStore) \<and>
   PlainError \<noteq> AuthorizationError \<and> PlainError \<noteq> BadRequestError"
  by (simp add: removeAdmin_def room_removeAdmin_def Room_findById_def io_defs demoStore_def
        demoRoom_def isAdmin_def)

lemma removeAdmin_creator:
  assumes "dbUp s" and "find (\<lambda>r. rid r = roomId) (rooms s) = Some room" and "isAdmin room userId"
  shows "removeAdmin roomId userId (createdBy room) s = (Inl PlainError, s)"
  using assms by (auto simp: removeAdmin_def room_removeAdmin_def Room_findById_def io_defs)

subsection \<open>Sending a message\<close>




subsection \<open>Read receipts\<close>

lemma markMessageAsRead_twice:
  "markMessageAsRead messageId userId (snd (markMessageAsRead messageId userId s))
     = markMessageAsRead messageId userId s"
proof (cases "dbUp s")
  case False
  then show ?thesis
    by (simp add: markMessageAsRead_def Message_findById_def io_defs)
next
  case up: True
  show ?thesis
  proof (cases "find (\<lambda>m. mid m = messageId) (messages s)")
    case None
    then show ?thesis using up
      by (simp add: markMessageAsRead_def Message_findById_def io_defs)
  next
    case (Some m)
    note msg = this
    then have midm: "mid m = messageId" by (auto simp: find_Some_iff)
    show ?thesis
    proof (cases "find (\<lambda>r. rid r = mroom m) (rooms s)")
      case None
      then show ?thesis using up msg
        by (simp add: markMessageAsRead_def Message_findById_def Room_findById_def io_defs)
    next
      case (Some r)
      note room = this
      show ?thesis
      proof (cases "isParticipant r userId \<and> userId \<notin> set (readBy m) \<and>
                    message_preValidate m = None \<and> message_contentRequired m")
        case False
        then show ?thesis using up msg room
          by (auto simp: markMessageAsRead_def Message_findById_def Room_findById_def io_defs
                message_markAsRead_def Message_save_def Let_def message_preValidate_def
                message_contentRequired_def
              split: option.splits if_splits)
      next
        case True
        let ?m' = "m\<lparr>readBy := readBy m @ [userId]\<rparr>"
        let ?s1 = "s\<lparr>messages := map (\<lambda>x. if mid x = messageId then ?m' else x) (messages s),
                     rooms := map (\<lambda>x. if rid x = mroom m
                                        then x\<lparr>lastMessage := Some messageId\<rparr> else x) (rooms s)\<rparr>"
        have first: "markMessageAsRead messageId userId s = (Inr (), ?s1)"
          using up msg room True midm
          by (simp add: markMessageAsRead_def Message_findById_def Room_findById_def io_defs
                message_markAsRead_def Message_save_def Let_def message_preValidate_def
                message_contentRequired_def message_postSave_def Room_findByIdAndUpdate_def)
        have fm: "find (\<lambda>x. mid x = messageId) (messages ?s1) = Some ?m'"
          using find_map_update [of mid messageId "\<lambda>_. ?m'" "messages s"] midm msg
          by simp
        have fr: "find (\<lambda>x. rid x = mroom m) (rooms ?s1)
                    = Some (r\<lparr>lastMessage := Some messageId\<rparr>)"
          using find_map_update
                  [of rid "mroom m" "\<lambda>x. x\<lparr>lastMessage := Some messageId\<rparr>" "rooms s"] room
          by simp
        have second: "markMessageAsRead messageId userId ?s1 = (Inr (), ?s1)"
          using up fm fr True
          by (simp add: markMessageAsRead_def Message_findById_def Room_findById_def io_defs
                message_markAsRead_def isParticipant_def)
        show ?thesis using first second by simp
      qed
    qed
  qed
qed

text \<open>
  C6. \<open>markMessageAsRead\<close> is idempotent: called again for the same message and user on
  the store the first call left, it gives the same outcome and leaves that store as it
  is; in particular every stored message keeps the \<open>readBy\<close> it had after the first call.
\<close>

theorem markMessageAsRead_idempotent:
  "markMessageAsRead messageId userId (snd (markMessageAsRead messageId userId s))
     = (fst (markMessageAsRead messageId userId s), snd (markMessageAsRead messageId userId s)) \<and>
   map readBy (messages (snd (markMessageAsRead messageId userId
                               (snd (markMessageAsRead messageId userId s)))))
     = map readBy (messages (snd (markMessageAsRead messageId userId s)))"
  by (simp add: markMessageAsRead_twice)

theorem markMessageAsRead_idempotent_witness:
  "fst (markMessageAsRead 1 1 unreadStore) = Inr () \<and>
   map readBy (messages (snd (markMessageAsRead 1 1 unreadStore))) = [[2, 1]] \<and>
   map readBy (messages (snd (markMessageAsRead 1 1 (snd (markMessageAsRead 1 1 unreadStore)))))
     = [[2, 1]]"
proof -
  have once: "fst (markMessageAsRead 1 1 unreadStore) = Inr () \<and>
              map readBy (messages (snd (markMessageAsRead 1 1 unreadStore))) = [[2, 1]]"
    by (simp add: markMessageAsRead_def Message_findById_def Room_findById_def io_defs
          message_markAsRead_def Message_save_def Let_def message_preValidate_def
          message_contentRequired_def message_postSave_def Room_findByIdAndUpdate_def
          unreadStore_def unreadMessage_def demoMessage_def demoStore_def demoRoom_def
          isParticipant_def)
  show ?thesis
    using markMessageAsRead_idempotent [of 1 1 unreadStore] once by simp
qed

subsection \<open>Unread counts\<close>

lemma none_unread_after_mark:
  "filter (unreadFilter r u)
     (map (\<lambda>m. if unreadFilter r u m then m\<lparr>readBy := addToSet u (readBy m)\<rparr> else m) ms) = []"
  by (induction ms) (auto simp: unreadFilter_def addToSet_def)

text \<open>
  C2. With record store and cache available and no cached value for the user and room,
  \<open>getUnreadCount\<close> returns the number of stored messages of the room that are not
  deleted, not sent by the user and without the user in \<open>readBy\<close>, and caches its
  decimal form for 300 seconds. On the store a successful \<open>markRoomAsRead\<close> leaves,
  \<open>getUnreadCount\<close> for the same room and user returns 0.
\<close>

theorem getUnreadCount_counts:
  "(dbUp s \<and> redisUp s \<and> map_of (kv s) (UNREAD_COUNT u r) = None \<longrightarrow>
      getUnreadCount r u s =
        (Inr (Num (int (length (filter (\<lambda>m. mroom m = r \<and> sender m \<noteq> u \<and> u \<notin> set (readBy m)
                                            \<and> \<not> isDeleted m) (messages s))))),
         s\<lparr>kv := AList.update (UNREAD_COUNT u r)
                   (natToString (length (filter (\<lambda>m. mroom m = r \<and> sender m \<noteq> u \<and>
                                    u \<notin> set (readBy m) \<and> \<not> isDeleted m) (messages s))), Some 300)
                   (kv s)\<rparr>)) \<and>
   (markRoomAsRead r u s = (Inr (), s') \<longrightarrow> fst (getUnreadCount r u s') = Inr (Num 0))"
proof (intro conjI impI)
  assume "dbUp s \<and> redisUp s \<and> map_of (kv s) (UNREAD_COUNT u r) = None"
  then show "getUnreadCount r u s =
        (Inr (Num (int (length (filter (\<lambda>m. mroom m = r \<and> sender m \<noteq> u \<and> u \<notin> set (readBy m)
                                            \<and> \<not> isDeleted m) (messages s))))),
         s\<lparr>kv := AList.update (UNREAD_COUNT u r)
                   (natToString (length (filter (\<lambda>m. mroom m = r \<and> sender m \<noteq> u \<and>
                                    u \<notin> set (readBy m) \<and> \<not> isDeleted m) (messages s))), Some 300)
                   (kv s)\<rparr>)"
    by (simp add: getUnreadCount_def io_defs redis_get_def Message_countDocuments_def
          redis_set_def unreadFilter_def [abs_def])
next
  assume mark: "markRoomAsRead r u s = (Inr (), s')"
  then have s': "dbUp s \<and> redisUp s \<and>
      s' = s\<lparr>messages := map (\<lambda>m. if unreadFilter r u m
                                   then m\<lparr>readBy := addToSet u (readBy m)\<rparr> else m) (messages s),
             kv := AList.delete (UNREAD_COUNT u r) (kv s),
             sets := filter (\<lambda>p. fst p \<noteq> UNREAD_COUNT u r) (sets s)\<rparr>"
    by (auto simp: markRoomAsRead_def io_defs Room_findById_def Message_updateMany_def
          redis_del_def split: option.splits if_splits)
  have miss: "map_of (kv s') (UNREAD_COUNT u r) = None"
    using s' by (simp add: delete_conv')
  show "fst (getUnreadCount r u s') = Inr (Num 0)"
    using s' miss
    by (simp add: getUnreadCount_def io_defs redis_get_def Message_countDocuments_def
          redis_set_def none_unread_after_mark)
qed

theorem getUnreadCount_counts_witness:
  "getUnreadCount 1 1 unreadStore
     = (Inr (Num 1), unreadStore\<lparr>kv := [(UNREAD_COUNT 1 1, (''1'', Some 300))]\<rparr>) \<and>
   fst (markRoomAsRead 1 1 unreadStore) = Inr () \<and>
   fst (getUnreadCount 1 1 (snd (markRoomAsRead 1 1 unreadStore))) = Inr (Num 0)"
proof -
  have pre: "dbUp unreadStore \<and> redisUp unreadStore \<and>
             map_of (kv unreadStore) (UNREAD_COUNT 1 1) = None"
    by (simp add: unreadStore_def demoStore_def)
  have n: "length (filter (\<lambda>m. mroom m = 1 \<and> sender m \<noteq> 1 \<and> 1 \<notin> set (readBy m) \<and> \<not> isDeleted m)
                    (messages unreadStore)) = 1"
    by (simp add: unreadStore_def unreadMessage_def demoMessage_def demoStore_def)
  have digit: "char_of (49::nat) = CHR ''1''" by code_simp
  have one: "natToString 1 = ''1''"
    by (simp add: natToString.simps digitChar_def digit)
  have empty: "kv unreadStore = []" by (simp add: unreadStore_def demoStore_def)
  have marked: "fst (markRoomAsRead 1 1 unreadStore) = Inr ()"
    by (simp add: markRoomAsRead_def io_defs Room_findById_def Message_updateMany_def
          redis_del_def unreadStore_def demoStore_def demoRoom_def isParticipant_def)
  then have run: "markRoomAsRead 1 1 unreadStore = (Inr (), snd (markRoomAsRead 1 1 unreadStore))"
    by (metis prod.collapse)
  show ?thesis
    using getUnreadCount_counts [of unreadStore 1 1 "snd (markRoomAsRead 1 1 unreadStore)"]
      pre n one empty marked run
    by simp
qed

subsection \<open>Failures and the unread counters\<close>







subsection \<open>Deleting an account\<close>

text \<open>
  The cleanup hook, had it run: with the record store available it pulls the user from
  the participants and admins of every room the user participates in and marks the
  user's messages deleted.
\<close>

lemma user_preRemove_effect:
  assumes "dbUp s"
  shows "user_preRemove u s =
           (Inr (),
            s\<lparr>rooms := map (\<lambda>r. if u \<in> set (participants r)
                               then r\<lparr>participants := pull u (participants r),
                                      admins := pull u (admins r)\<rparr>
                               else r) (rooms s),
              messages := map (\<lambda>m. if sender m = u then m\<lparr>isDeleted := True\<rparr> else m)
                            (messages s)\<rparr>)"
  using assms by (simp add: user_preRemove_def io_defs Room_updateMany_def Message_updateMany_def)

text \<open>
  C8. User 1 is participant and admin of room 1 and the sender of the stored message.
  \<open>deleteAccount\<close> for user 1 succeeds and removes the user document, and leaves the
  rooms and the messages as they were: user 1 is still participant and admin of the room,
  and the message is not marked deleted.
\<close>

theorem deleteAccount_leaves_rooms_and_messages:
  "fst (deleteAccount 1 sentStore) = Inr () \<and>
   users (snd (deleteAccount 1 sentStore)) = [2, 3] \<and>
   rooms (snd (deleteAccount 1 sentStore)) = [demoRoom] \<and>
   messages (snd (deleteAccount 1 sentStore)) = [demoMessage] \<and>
   1 \<in> set (participants demoRoom) \<and> 1 \<in> set (admins demoRoom) \<and>
   sender demoMessage = 1 \<and> \<not> isDeleted demoMessage"
  by (simp add: deleteAccount_def io_defs User_findById_def User_deleteOne_def redis_del_def
        redis_sRem_def sentStore_def demoStore_def demoRoom_def demoMessage_def)

subsection \<open>Direct rooms are created once\<close>

lemma keeps_ret: "Q x \<Longrightarrow> keeps K U (ret x) Q"
  by (simp add: keeps_def ret_def)

lemma keeps_throw: "keeps K U (throw e) Q"
  by (simp add: keeps_def throw_def)

lemma keeps_bnd:
  assumes "keeps K U m P" and "\<And>x. P x \<Longrightarrow> keeps K U (f x) Q"
  shows "keeps K U (bnd m f) Q"
  unfolding keeps_def
proof (intro allI impI)
  fix s assume s: "roomKeys s = K \<and> users s = U"
  obtain res s1 where ms: "m s = (res, s1)" by (cases "m s")
  from assms(1) s ms have s1: "roomKeys s1 = K \<and> users s1 = U" and p: "\<forall>x. res = Inr x \<longrightarrow> P x"
    by (auto simp: keeps_def)
  show "roomKeys (snd (bnd m f s)) = K \<and> users (snd (bnd m f s)) = U \<and>
        (\<forall>x. fst (bnd m f s) = Inr x \<longrightarrow> Q x)"
  proof (cases res)
    case (Inl e)
    then show ?thesis using ms s1 by (simp add: bnd_def)
  next
    case (Inr x)
    then have "keeps K U (f x) Q" using p assms(2) by simp
    then show ?thesis using ms s1 Inr by (simp add: bnd_def keeps_def)
  qed
qed

lemma keeps_catch:
  assumes "keeps K U m Q" and "\<And>e. keeps K U (h e) Q"
  shows "keeps K U (catch m h) Q"
  unfolding keeps_def
proof (intro allI impI)
  fix s assume s: "roomKeys s = K \<and> users s = U"
  obtain res s1 where ms: "m s = (res, s1)" by (cases "m s")
  from assms(1) s ms have s1: "roomKeys s1 = K \<and> users s1 = U" and q: "\<forall>x. res = Inr x \<longrightarrow> Q x"
    by (auto simp: keeps_def)
  show "roomKeys (snd (catch m h s)) = K \<and> users (snd (catch m h s)) = U \<and>
        (\<forall>x. fst (catch m h s) = Inr x \<longrightarrow> Q x)"
  proof (cases res)
    case (Inl e)
    then show ?thesis using ms s1 assms(2) [of e] by (simp add: catch_def keeps_def)
  next
    case (Inr x)
    then show ?thesis using ms s1 q by (simp add: catch_def)
  qed
qed

lemma keeps_weaken: "keeps K U m P \<Longrightarrow> keeps K U m (\<lambda>_. True)"
  by (simp add: keeps_def)

lemma keeps_redis [intro!]:
  "keeps K U (redis_get k) (\<lambda>_. True)"
  "keeps K U (redis_set k v e) (\<lambda>_. True)"
  "keeps K U (redis_del k) (\<lambda>_. True)"
  "keeps K U (redis_sAdd k i) (\<lambda>_. True)"
  "keeps K U (redis_sRem k i) (\<lambda>_. True)"
  by (simp_all add: keeps_def roomKeys_def redis_get_def redis_set_def redis_del_def
        redis_sAdd_def redis_sRem_def)

lemma keeps_reads [intro!]:
  "keeps K U (User_find P) (\<lambda>_. True)"
  "keeps K U (User_findById u) (\<lambda>_. True)"
  "keeps K U (Room_find R) (\<lambda>_. True)"
  "keeps K U (Message_findById i) (\<lambda>_. True)"
  "keeps K U (Message_countDocuments M) (\<lambda>_. True)"
  "keeps K U (Message_updateMany M g) (\<lambda>_. True)"
  by (simp_all add: keeps_def roomKeys_def User_find_def User_findById_def Room_find_def
        Message_findById_def Message_countDocuments_def Message_updateMany_def)

lemma keeps_Room_findById [intro!]:
  "keeps K U (Room_findById i) (\<lambda>found. case found of None \<Rightarrow> True | Some r \<Rightarrow> keyOf r \<in> set K)"
  by (auto simp: keeps_def roomKeys_def Room_findById_def find_Some_iff split: option.splits)

lemma keeps_Room_findOne [intro!]:
  "keeps K U (Room_findOne P) (\<lambda>found. case found of None \<Rightarrow> True | Some r \<Rightarrow> keyOf r \<in> set K)"
  by (auto simp: keeps_def roomKeys_def Room_findOne_def find_Some_iff split: option.splits)

lemma map_keyOf_replace:
  assumes "distinct (map fst (map keyOf rs))" and "keyOf r \<in> set (map keyOf rs)"
  shows "map keyOf (map (\<lambda>x. if rid x = rid r then r else x) rs) = map keyOf rs"
proof -
  have same: "keyOf x = keyOf r" if x: "x \<in> set rs" and e: "rid x = rid r" for x
  proof -
    have "keyOf x \<in> set (map keyOf rs)" using x by simp
    then have "(rid r, directKey x) \<in> set (map keyOf rs)"
      using e unfolding keyOf_def by simp
    moreover have "(rid r, directKey r) \<in> set (map keyOf rs)"
      using assms(2) unfolding keyOf_def by simp
    ultimately have "directKey x = directKey r"
      using assms(1) eq_key_imp_eq_value by fastforce
    then show ?thesis using e by (simp add: keyOf_def)
  qed
  then show ?thesis by (induction rs) auto
qed

lemma room_preSave_stored: "room_preSave False r = r"
  by (simp add: room_preSave_def)

lemma Room_save_rooms:
  "rooms (snd (Room_save b r s)) = rooms s \<or>
   rooms (snd (Room_save b r s)) = map (\<lambda>x. if rid x = rid r then r else x) (rooms s)"
  by (simp add: Room_save_def room_preSave_stored split: option.splits)

lemma Room_save_users: "users (snd (Room_save b r s)) = users s"
  by (simp add: Room_save_def split: option.splits)

lemma keeps_Room_save:
  assumes "distinct (map fst K)" and "keyOf r \<in> set K"
  shows "keeps K U (Room_save b r) (\<lambda>_. True)"
  unfolding keeps_def
proof (intro allI impI)
  fix s assume s: "roomKeys s = K \<and> users s = U"
  then have "map keyOf (map (\<lambda>x. if rid x = rid r then r else x) (rooms s)) = map keyOf (rooms s)"
    using assms map_keyOf_replace [of "rooms s" r] unfolding roomKeys_def by blast
  then have "roomKeys (snd (Room_save b r s)) = roomKeys s"
    using Room_save_rooms [of b r s] unfolding roomKeys_def by metis
  then show "roomKeys (snd (Room_save b r s)) = K \<and> users (snd (Room_save b r s)) = U \<and>
             (\<forall>x. fst (Room_save b r s) = Inr x \<longrightarrow> True)"
    using s Room_save_users by simp
qed

lemma keeps_Room_findByIdAndUpdate:
  assumes "\<And>r. keyOf (f r) = keyOf r"
  shows "keeps K U (Room_findByIdAndUpdate i f) (\<lambda>_. True)"
  using assms by (auto simp: keeps_def roomKeys_def Room_findByIdAndUpdate_def)


lemma keyOf_lastMessage: "keyOf (r\<lparr>lastMessage := x\<rparr>) = keyOf r"
  by (simp add: keyOf_def directKey_def)

lemma keyOf_isActive: "keyOf (r\<lparr>isActive := x\<rparr>) = keyOf r"
  by (simp add: keyOf_def directKey_def)

lemma keyOf_admins: "keyOf (r\<lparr>admins := x\<rparr>) = keyOf r"
  by (simp add: keyOf_def directKey_def)

lemma keyOf_name: "keyOf (r\<lparr>name := x\<rparr>) = keyOf r"
  by (simp add: keyOf_def directKey_def)

lemma keyOf_description: "keyOf (r\<lparr>description := x\<rparr>) = keyOf r"
  by (simp add: keyOf_def directKey_def)

lemma keyOf_avatar: "keyOf (r\<lparr>avatar := x\<rparr>) = keyOf r"
  by (simp add: keyOf_def directKey_def)

lemma keyOf_participants: "rtype r \<noteq> Direct \<Longrightarrow> keyOf (r\<lparr>participants := x\<rparr>) = keyOf r"
  by (simp add: keyOf_def directKey_def)

lemmas keyOf_updates = keyOf_lastMessage keyOf_isActive keyOf_admins keyOf_name
  keyOf_description keyOf_avatar

lemma keeps_message_postSave: "keeps K U (message_postSave doc) (\<lambda>_. True)"
  unfolding message_postSave_def
  by (intro keeps_catch keeps_Room_findByIdAndUpdate keeps_ret) (simp_all add: keyOf_updates)

lemma keeps_Message_create: "keeps K U (Message_create m0) (\<lambda>_. True)"
  unfolding keeps_def
proof (intro allI impI)
  fix s assume s: "roomKeys s = K \<and> users s = U"
  let ?m1 = "m0\<lparr>mid := freshId (map mid (messages s))\<rparr>"
  let ?s1 = "s\<lparr>messages := messages s @ [?m1]\<rparr>"
  have s1: "roomKeys ?s1 = K \<and> users ?s1 = U" using s by (simp add: roomKeys_def)
  have "keeps K U (bnd (message_postSave ?m1) (\<lambda>_. ret ?m1)) (\<lambda>_. True)"
    by (rule keeps_bnd [OF keeps_message_postSave]) (simp add: keeps_ret)
  then have "roomKeys (snd (bnd (message_postSave ?m1) (\<lambda>_. ret ?m1) ?s1)) = K \<and>
             users (snd (bnd (message_postSave ?m1) (\<lambda>_. ret ?m1) ?s1)) = U"
    using s1 unfolding keeps_def by blast
  then show "roomKeys (snd (Message_create m0 s)) = K \<and> users (snd (Message_create m0 s)) = U \<and>
             (\<forall>x. fst (Message_create m0 s) = Inr x \<longrightarrow> True)"
    using s by (simp add: Message_create_def Let_def split: option.splits)
qed

lemma keeps_Message_save: "keeps K U (Message_save b m) (\<lambda>_. True)"
  unfolding keeps_def
proof (intro allI impI)
  fix s assume s: "roomKeys s = K \<and> users s = U"
  let ?s1 = "s\<lparr>messages := map (\<lambda>x. if mid x = mid m then m else x) (messages s)\<rparr>"
  have s1: "roomKeys ?s1 = K \<and> users ?s1 = U" using s by (simp add: roomKeys_def)
  have "roomKeys (snd (message_postSave m ?s1)) = K \<and> users (snd (message_postSave m ?s1)) = U"
    using s1 keeps_message_postSave [of K U m] unfolding keeps_def by blast
  then show "roomKeys (snd (Message_save b m s)) = K \<and> users (snd (Message_save b m s)) = U \<and>
             (\<forall>x. fst (Message_save b m s) = Inr x \<longrightarrow> True)"
    using s by (simp add: Message_save_def split: option.splits)
qed

lemma keeps_message_markAsRead: "keeps K U (message_markAsRead m u) (\<lambda>_. True)"
  unfolding message_markAsRead_def Let_def
  by (auto intro!: keeps_bnd keeps_Message_save keeps_ret)

text \<open>The methods of a room keep the keys.\<close>

lemma keeps_room_addParticipant:
  assumes "distinct (map fst K)" and "keyOf r \<in> set K" and "rtype r \<noteq> Direct"
  shows "keeps K U (room_addParticipant r u) (\<lambda>r'. keyOf r' = keyOf r \<and> rtype r' \<noteq> Direct)"
  unfolding room_addParticipant_def Let_def
  using assms
  by (auto intro!: keeps_bnd keeps_Room_save keeps_ret simp: keyOf_participants)

lemma keeps_room_removeParticipant:
  assumes "distinct (map fst K)" and "keyOf r \<in> set K" and "rtype r \<noteq> Direct"
  shows "keeps K U (room_removeParticipant r u) (\<lambda>_. True)"
  unfolding room_removeParticipant_def Let_def
  using assms
  by (auto intro!: keeps_bnd keeps_Room_save keeps_ret simp: keyOf_participants keyOf_updates)

lemma keeps_room_makeAdmin:
  assumes "distinct (map fst K)" and "keyOf r \<in> set K"
  shows "keeps K U (room_makeAdmin r u) (\<lambda>_. True)"
  unfolding room_makeAdmin_def Let_def
  using assms
  by (auto intro!: keeps_bnd keeps_Room_save keeps_ret simp: keyOf_updates)

lemma keeps_room_removeAdmin:
  assumes "distinct (map fst K)" and "keyOf r \<in> set K"
  shows "keeps K U (room_removeAdmin r u) (\<lambda>_. True)"
  unfolding room_removeAdmin_def Let_def
  using assms
  by (auto intro!: keeps_bnd keeps_Room_save keeps_ret keeps_throw simp: keyOf_updates)

text \<open>So do the loops over participants.\<close>

lemma keeps_sAddAll: "keeps K U (sAddAll ps i) (\<lambda>_. True)"
proof (induction ps)
  case Nil
  show ?case by (simp add: keeps_def)
next
  case (Cons p ps)
  have "sAddAll (p # ps) i = bnd (redis_sAdd (USER_ROOMS p) i) (\<lambda>_. sAddAll ps i)"
    by (rule ext) (simp add: bnd_def split: prod.splits sum.splits)
  then show ?case using Cons by (auto intro!: keeps_bnd)
qed

lemma keeps_sRemAll: "keeps K U (sRemAll ps i) (\<lambda>_. True)"
proof (induction ps)
  case Nil
  show ?case by (simp add: keeps_def)
next
  case (Cons p ps)
  have "sRemAll (p # ps) i = bnd (redis_sRem (USER_ROOMS p) i) (\<lambda>_. sRemAll ps i)"
    by (rule ext) (simp add: bnd_def split: prod.splits sum.splits)
  then show ?case using Cons by (auto intro!: keeps_bnd)
qed

lemma keeps_addLoop:
  assumes "distinct (map fst K)"
  shows "keyOf r \<in> set K \<Longrightarrow> rtype r \<noteq> Direct \<Longrightarrow> keeps K U (addLoop r i ps) (\<lambda>_. True)"
proof (induction ps arbitrary: r)
  case Nil
  show ?case by (simp add: keeps_def)
next
  case (Cons p ps)
  have unfold: "addLoop r i (p # ps)
          = bnd (room_addParticipant r p) (\<lambda>r'. bnd (redis_sAdd (USER_ROOMS p) i) (\<lambda>_. addLoop r' i ps))"
    by (rule ext) (simp add: bnd_def split: prod.splits sum.splits)
  show ?case
    unfolding unfold
    using Cons assms
    by (auto intro!: keeps_bnd keeps_room_addParticipant)
qed


text \<open>The service calls that create no room and delete no user keep keys and users.\<close>

lemma keeps_updateRoom:
  assumes "distinct (map fst K)"
  shows "keeps K U (updateRoom i u d) (\<lambda>_. True)"
  unfolding updateRoom_def
  apply (rule keeps_bnd [OF keeps_Room_findById])
  using assms
  apply (auto split: option.splits simp: Let_def keyOf_updates
              intro!: keeps_throw keeps_bnd keeps_Room_save keeps_ret)
  done

lemma keeps_deleteRoom:
  assumes "distinct (map fst K)"
  shows "keeps K U (deleteRoom i u) (\<lambda>_. True)"
  unfolding deleteRoom_def
  apply (rule keeps_bnd [OF keeps_Room_findById])
  using assms
  apply (auto split: option.splits simp: keyOf_updates
              intro!: keeps_throw keeps_bnd keeps_Room_save keeps_sRemAll)
  done

lemma keeps_addParticipants:
  assumes "distinct (map fst K)"
  shows "keeps K U (addParticipants i u ps) (\<lambda>_. True)"
  unfolding addParticipants_def
  apply (rule keeps_bnd [OF keeps_Room_findById])
  using assms
  apply (auto split: option.splits intro!: keeps_throw keeps_bnd keeps_addLoop)
  done

lemma keeps_removeParticipant:
  assumes "distinct (map fst K)"
  shows "keeps K U (removeParticipant i u p) (\<lambda>_. True)"
  unfolding removeParticipant_def
  apply (rule keeps_bnd [OF keeps_Room_findById])
  using assms
  apply (auto split: option.splits
              intro!: keeps_throw keeps_bnd keeps_room_removeParticipant keeps_ret)
  done

lemma keeps_makeAdmin:
  assumes "distinct (map fst K)"
  shows "keeps K U (makeAdmin i u t) (\<lambda>_. True)"
  unfolding makeAdmin_def
  apply (rule keeps_bnd [OF keeps_Room_findById])
  using assms
  apply (auto split: option.splits intro!: keeps_throw keeps_room_makeAdmin)
  done

lemma keeps_removeAdmin:
  assumes "distinct (map fst K)"
  shows "keeps K U (removeAdmin i u t) (\<lambda>_. True)"
  unfolding removeAdmin_def
  apply (rule keeps_bnd [OF keeps_Room_findById])
  using assms
  apply (auto split: option.splits intro!: keeps_throw keeps_room_removeAdmin)
  done

lemma keeps_sendMessage:
  assumes "distinct (map fst K)"
  shows "keeps K U (sendMessage u d) (\<lambda>_. True)"
  unfolding sendMessage_def Let_def
  apply (rule keeps_bnd [OF keeps_Room_findById])
  using assms
  apply (auto split: option.splits simp: keyOf_updates
              intro!: keeps_throw keeps_bnd keeps_Message_create keeps_Room_save keeps_ret)
  done

lemma keeps_sendFileMessage:
  assumes "distinct (map fst K)"
  shows "keeps K U (sendFileMessage u r url fname fsize t) (\<lambda>_. True)"
  unfolding sendFileMessage_def
  apply (rule keeps_bnd [OF keeps_Room_findById])
  using assms
  apply (auto split: option.splits simp: keyOf_updates
              intro!: keeps_throw keeps_bnd keeps_Message_create keeps_Room_save keeps_ret)
  done

lemma keeps_updateMessage: "keeps K U (updateMessage m u c) (\<lambda>_. True)"
  unfolding updateMessage_def Let_def
  by (auto split: option.splits intro!: keeps_throw keeps_bnd keeps_Message_save keeps_ret)

lemma keeps_deleteMessage: "keeps K U (deleteMessage m u) (\<lambda>_. True)"
  unfolding deleteMessage_def Let_def
  by (auto split: option.splits intro!: keeps_throw keeps_bnd keeps_Message_save)

lemma keeps_markMessageAsRead: "keeps K U (markMessageAsRead m u) (\<lambda>_. True)"
  unfolding markMessageAsRead_def
  by (auto split: option.splits intro!: keeps_throw keeps_bnd keeps_message_markAsRead keeps_ret)

lemma keeps_markRoomAsRead: "keeps K U (markRoomAsRead r u) (\<lambda>_. True)"
  unfolding markRoomAsRead_def
  by (auto split: option.splits intro!: keeps_throw keeps_bnd)

lemma keeps_getUnreadCount: "keeps K U (getUnreadCount r u) (\<lambda>_. True)"
  unfolding getUnreadCount_def
  by (auto split: option.splits intro!: keeps_catch keeps_bnd keeps_ret)

lemma keeps_getTotalUnreadCount: "keeps K U (getTotalUnreadCount u) (\<lambda>_. True)"
  unfolding getTotalUnreadCount_def Let_def
  by (auto split: option.splits intro!: keeps_catch keeps_bnd keeps_ret)


text \<open>\<open>createRoom\<close> keeps the keys or appends the key of the room it created.\<close>

lemma foldr_max_upper: "x \<in> set ids \<Longrightarrow> x \<le> foldr max ids (0::nat)"
  by (induction ids) auto

lemma freshId_fresh: "freshId ids \<notin> set ids"
  using foldr_max_upper [of "freshId ids" ids] by (auto simp: freshId_def)

lemma keyOf_created:
  "keyOf ((room_preSave True (Room_new n t d ps ads c))\<lparr>rid := i\<rparr>)
     = (i, if t = Direct then Some (insert c (set ps)) else None)"
  by (auto simp: keyOf_def directKey_def room_preSave_def Room_new_def Let_def)

lemma Room_create_result:
  "Room_create r0 s = (res, s1) \<Longrightarrow>
     (\<exists>e. res = Inl e \<and> s1 = s) \<or>
     (res = Inr ((room_preSave True r0)\<lparr>rid := freshId (map rid (rooms s))\<rparr>) \<and>
      s1 = s\<lparr>rooms := rooms s @ [(room_preSave True r0)\<lparr>rid := freshId (map rid (rooms s))\<rparr>]\<rparr>)"
  by (auto simp: Room_create_def Let_def split: option.splits if_splits)

lemma bnd_create_keys:
  assumes f: "\<And>K U x. keeps K U (f x) (\<lambda>_. True)"
  shows "users (snd (bnd (Room_create r0) f s)) = users s \<and>
         (roomKeys (snd (bnd (Room_create r0) f s)) = roomKeys s \<or>
          roomKeys (snd (bnd (Room_create r0) f s))
            = roomKeys s @ [keyOf ((room_preSave True r0)\<lparr>rid := freshId (map rid (rooms s))\<rparr>)])"
proof -
  obtain res s1 where c: "Room_create r0 s = (res, s1)" by (cases "Room_create r0 s")
  let ?r1 = "(room_preSave True r0)\<lparr>rid := freshId (map rid (rooms s))\<rparr>"
  from Room_create_result [OF c] show ?thesis
  proof
    assume "\<exists>e. res = Inl e \<and> s1 = s"
    then show ?thesis using c by (auto simp: bnd_def)
  next
    assume ok: "res = Inr ?r1 \<and> s1 = s\<lparr>rooms := rooms s @ [?r1]\<rparr>"
    then have run: "bnd (Room_create r0) f s = f ?r1 s1" using c by (simp add: bnd_def)
    have s1: "roomKeys s1 = roomKeys s @ [keyOf ?r1] \<and> users s1 = users s"
      using ok by (simp add: roomKeys_def)
    then have "roomKeys (snd (f ?r1 s1)) = roomKeys s @ [keyOf ?r1] \<and> users (snd (f ?r1 s1)) = users s"
      using f [of "roomKeys s @ [keyOf ?r1]" "users s" ?r1] unfolding keeps_def by blast
    then show ?thesis using run by simp
  qed
qed

lemma createRoom_keys:
  "users (snd (createRoom u d s)) = users s \<and>
   (roomKeys (snd (createRoom u d s)) = roomKeys s \<or>
    (\<exists>other. find (directRoomOf u other) (rooms s) = None \<and>
       roomKeys (snd (createRoom u d s))
         = roomKeys s @ [(freshId (map rid (rooms s)), Some {u, other})]) \<or>
    roomKeys (snd (createRoom u d s)) = roomKeys s @ [(freshId (map rid (rooms s)), None)])"
proof (cases "dbUp s")
  case False
  then show ?thesis by (simp add: createRoom_def io_defs User_find_def)
next
  case up: True
  let ?us = "filter (\<lambda>x. x \<in> set (participantIds d)) (users s)"
  show ?thesis
  proof (cases "length ?us \<noteq> length (participantIds d)")
    case True
    then show ?thesis using up by (simp add: createRoom_def io_defs User_find_def)
  next
    case len: False
    show ?thesis
    proof (cases "dtype d = Direct")
      case direct: True
      show ?thesis
      proof (cases "\<exists>other. participantIds d = [other]")
        case False
        then show ?thesis using up len direct
          by (auto simp: createRoom_def io_defs User_find_def split: list.splits)
      next
        case True
        then obtain other where other: "participantIds d = [other]" by blast
        show ?thesis
        proof (cases "find (directRoomOf u other) (rooms s)")
          case (Some r)
          then show ?thesis using up len direct other
            by (simp add: createRoom_def io_defs User_find_def Room_findOne_def)
        next
          case None
          let ?f = "\<lambda>room. bnd (redis_sAdd (USER_ROOMS u) (rid room)) (\<lambda>_.
                          bnd (redis_sAdd (USER_ROOMS other) (rid room)) (\<lambda>_. ret room))"
          have f: "\<And>K U x. keeps K U (?f x) (\<lambda>_. True)"
            by (auto intro!: keeps_bnd keeps_ret)
          have run: "createRoom u d s
                       = bnd (Room_create (Room_new None Direct [] [u, other] [] u)) ?f s"
            using up len direct other None
            by (simp add: createRoom_def User_find_def Room_findOne_def bnd_def)
          show ?thesis
            using bnd_create_keys [of ?f "Room_new None Direct [] [u, other] [] u" s, OF f] None
            unfolding run keyOf_created by auto
        qed
      qed
    next
      case group: False
      show ?thesis
      proof (cases "case dname d of None \<Rightarrow> True | Some n \<Rightarrow> n = [] \<or> trim n = []")
        case True
        then show ?thesis using up len group
          by (simp add: createRoom_def io_defs User_find_def)
      next
        case False
        let ?f = "\<lambda>room. bnd (sAddAll (participantIds d @ [u]) (rid room)) (\<lambda>_. ret room)"
        let ?r0 = "Room_new (dname d) (dtype d) (case ddescription d of None \<Rightarrow> [] | Some x \<Rightarrow> x)
                     (participantIds d @ [u]) [u] u"
        have f: "\<And>K U x. keeps K U (?f x) (\<lambda>_. True)"
          by (auto intro!: keeps_bnd keeps_sAddAll keeps_ret)
        have run: "createRoom u d s = bnd (Room_create ?r0) ?f s"
          using up len group False
          by (simp add: createRoom_def User_find_def bnd_def)
        show ?thesis
          using bnd_create_keys [of ?f ?r0 s, OF f] group
          unfolding run keyOf_created by auto
      qed
    qed
  qed
qed

lemma getOrCreateDirectRoom_state:
  "snd (getOrCreateDirectRoom u v s) = s \<or>
   (\<exists>d. snd (getOrCreateDirectRoom u v s) = snd (createRoom u d s))"
  by (auto simp: getOrCreateDirectRoom_def io_defs User_findById_def Room_findOne_def
      split: option.splits)

lemma deleteAccount_keys:
  "roomKeys (snd (deleteAccount u s)) = roomKeys s \<and>
   (users (snd (deleteAccount u s)) = users s \<or>
    users (snd (deleteAccount u s)) = removeAll u (users s))"
  by (auto simp: deleteAccount_def io_defs User_findById_def User_deleteOne_def redis_del_def
        redis_sRem_def roomKeys_def find_Some_iff split: option.splits)

text \<open>Every call preserves the invariant, so it holds in every store that can arise.\<close>

lemma dedupInv_same:
  "roomKeys s' = roomKeys s \<Longrightarrow> users s' = users s \<Longrightarrow> dedupInv s \<Longrightarrow> dedupInv s'"
  by (simp add: dedupInv_def)

lemma keeps_dedupInv:
  assumes "keeps (roomKeys s) (users s) m (\<lambda>_. True)" and "dedupInv s"
  shows "dedupInv (snd (m s))"
  using assms dedupInv_same [of "snd (m s)" s] unfolding keeps_def by blast

lemma roomKeys_ids: "map fst (roomKeys s) = map rid (rooms s)"
  by (simp add: roomKeys_def keyOf_def comp_def)

lemma createRoom_dedupInv:
  assumes inv: "dedupInv s"
  shows "dedupInv (snd (createRoom u d s))"
proof -
  let ?s' = "snd (createRoom u d s)"
  let ?i = "freshId (map rid (rooms s))"
  have fresh: "?i \<notin> set (map fst (roomKeys s))"
    using freshId_fresh [of "map rid (rooms s)"] by (simp add: roomKeys_ids)
  from createRoom_keys [of u d s]
  have us: "users ?s' = users s"
    and ks: "roomKeys ?s' = roomKeys s \<or>
      (\<exists>other. find (directRoomOf u other) (rooms s) = None \<and>
         roomKeys ?s' = roomKeys s @ [(?i, Some {u, other})]) \<or>
      roomKeys ?s' = roomKeys s @ [(?i, None)]"
    by blast+
  from ks show ?thesis
  proof (elim disjE exE conjE)
    assume "roomKeys ?s' = roomKeys s"
    then show ?thesis using us inv dedupInv_same by blast
  next
    fix other
    assume none: "find (directRoomOf u other) (rooms s) = None"
      and k: "roomKeys ?s' = roomKeys s @ [(?i, Some {u, other})]"
    have "\<not> covers (keyOf r) (?i, Some {u, other})" if r: "r \<in> set (rooms s)" for r
      using none r
      by (auto simp: find_None_iff directRoomOf_def covers_def keyOf_def directKey_def)
    then have "\<forall>k0 \<in> set (roomKeys s). \<not> covers k0 (?i, Some {u, other})"
      by (auto simp: roomKeys_def)
    then show ?thesis
      using inv us k fresh by (simp add: dedupInv_def sorted_wrt_append)
  next
    assume k: "roomKeys ?s' = roomKeys s @ [(?i, None)]"
    have "\<forall>k0 \<in> set (roomKeys s). \<not> covers k0 (?i, None)"
      by (simp add: covers_def split: option.splits)
    then show ?thesis
      using inv us k fresh by (simp add: dedupInv_def sorted_wrt_append)
  qed
qed

lemma snd_outcomeOf: "snd (outcomeOf x) = snd x"
  by (cases x) (simp add: outcomeOf_def split: sum.splits)

lemma run_dedupInv:
  assumes inv: "dedupInv s"
  shows "dedupInv (snd (run c s))"
proof -
  have d: "distinct (map fst (roomKeys s))" using inv by (simp add: dedupInv_def)
  show ?thesis
  proof (cases c)
    case (CreateRoom u dto)
    then show ?thesis using createRoom_dedupInv [OF inv] by (simp add: snd_outcomeOf)
  next
    case (GetOrCreateDirectRoom u v)
    then show ?thesis
      using getOrCreateDirectRoom_state [of u v s] createRoom_dedupInv [OF inv] inv
      by (auto simp: snd_outcomeOf)
  next
    case (DeleteAccount u)
    have "distinct (removeAll u (users s))" using inv by (simp add: dedupInv_def distinct_removeAll)
    then show ?thesis
      using DeleteAccount deleteAccount_keys [of u s] inv
      by (auto simp: snd_outcomeOf dedupInv_def)
  next
    case (UpdateRoom i u dto)
    then show ?thesis using keeps_dedupInv [OF keeps_updateRoom [OF d] inv] by (simp add: snd_outcomeOf)
  next
    case (DeleteRoom i u)
    then show ?thesis using keeps_dedupInv [OF keeps_deleteRoom [OF d] inv] by (simp add: snd_outcomeOf)
  next
    case (AddParticipants i u ps)
    then show ?thesis using keeps_dedupInv [OF keeps_addParticipants [OF d] inv] by (simp add: snd_outcomeOf)
  next
    case (RemoveParticipant i u p)
    then show ?thesis using keeps_dedupInv [OF keeps_removeParticipant [OF d] inv] by (simp add: snd_outcomeOf)
  next
    case (LeaveRoom i u)
    then show ?thesis
      using keeps_dedupInv [OF keeps_removeParticipant [OF d] inv]
      by (simp add: snd_outcomeOf leaveRoom_def)
  next
    case (MakeAdmin i u t)
    then show ?thesis using keeps_dedupInv [OF keeps_makeAdmin [OF d] inv] by (simp add: snd_outcomeOf)
  next
    case (RemoveAdmin i u t)
    then show ?thesis using keeps_dedupInv [OF keeps_removeAdmin [OF d] inv] by (simp add: snd_outcomeOf)
  next
    case (SendMessage u dto)
    then show ?thesis using keeps_dedupInv [OF keeps_sendMessage [OF d] inv] by (simp add: snd_outcomeOf)
  next
    case (SendFileMessage u r url fname fsize t)
    then show ?thesis using keeps_dedupInv [OF keeps_sendFileMessage [OF d] inv] by (simp add: snd_outcomeOf)
  next
    case (UpdateMessage m u c')
    then show ?thesis using keeps_dedupInv [OF keeps_updateMessage inv] by (simp add: snd_outcomeOf)
  next
    case (DeleteMessage m u)
    then show ?thesis using keeps_dedupInv [OF keeps_deleteMessage inv] by (simp add: snd_outcomeOf)
  next
    case (MarkMessageAsRead m u)
    then show ?thesis using keeps_dedupInv [OF keeps_markMessageAsRead inv] by (simp add: snd_outcomeOf)
  next
    case (MarkRoomAsRead r u)
    then show ?thesis using keeps_dedupInv [OF keeps_markRoomAsRead inv] by (simp add: snd_outcomeOf)
  next
    case (GetUnreadCount r u)
    then show ?thesis using keeps_dedupInv [OF keeps_getUnreadCount inv] by (simp add: snd_outcomeOf)
  next
    case (GetTotalUnreadCount u)
    then show ?thesis using keeps_dedupInv [OF keeps_getTotalUnreadCount inv] by (simp add: snd_outcomeOf)
  qed
qed

lemma reachable_dedupInv: "reachable s \<Longrightarrow> dedupInv s"
proof (induction rule: reachable.induct)
  case (start idx)
  show ?case by (simp add: dedupInv_def emptyStore_def roomKeys_def)
next
  case (call s c)
  then show ?case using run_dedupInv by blast
next
  case (register s u)
  then show ?case by (simp add: dedupInv_def roomKeys_def)
next
  case (environment s k t d c)
  then show ?case by (simp add: dedupInv_def roomKeys_def)
qed


text \<open>
  Under the invariant the first stored room that the query of \<open>createRoom\<close> matches is
  the room of the pair, and no two stored rooms belong to the same pair.
\<close>

lemma find_first_uncovered:
  assumes "sorted_wrt (\<lambda>a b. \<not> covers (keyOf a) (keyOf b)) rs" and "r \<in> set rs" and "P r"
    and "\<And>y. P y \<Longrightarrow> covers (keyOf y) (keyOf r)"
  shows "find P rs = Some r"
  using assms(1,2)
proof (induction rs)
  case Nil
  then show ?case by simp
next
  case (Cons y ys)
  show ?case
  proof (cases "P y")
    case True
    have "y = r"
    proof (rule ccontr)
      assume "y \<noteq> r"
      then have "r \<in> set ys" using Cons.prems by simp
      then have "\<not> covers (keyOf y) (keyOf r)" using Cons.prems by simp
      then show False using assms(4) [OF True] by simp
    qed
    then show ?thesis using True by simp
  next
    case False
    then have "r \<in> set ys" using Cons.prems assms(3) by auto
    then show ?thesis using Cons False by simp
  qed
qed

lemma at_most_one_uncovered:
  assumes "sorted_wrt (\<lambda>a b. \<not> covers (keyOf a) (keyOf b)) rs"
    and "\<And>x y. Q x \<Longrightarrow> Q y \<Longrightarrow> covers (keyOf x) (keyOf y)"
  shows "length (filter Q rs) \<le> 1"
  using assms(1)
proof (induction rs)
  case Nil
  then show ?case by simp
next
  case (Cons y ys)
  show ?case
  proof (cases "Q y")
    case True
    have "\<not> Q z" if "z \<in> set ys" for z
      using that Cons.prems assms(2) [OF True, of z] by auto
    then have "filter Q ys = []" by (simp add: filter_empty_conv)
    then show ?thesis using True by simp
  next
    case False
    then show ?thesis using Cons by simp
  qed
qed

lemma filter_single_distinct:
  "distinct xs \<Longrightarrow> p \<in> set xs \<Longrightarrow> length (filter (\<lambda>x. x = p) xs) = Suc 0"
  by (induction xs) (auto simp: filter_empty_conv)

lemma dedupInv_sorted:
  "dedupInv s \<Longrightarrow> sorted_wrt (\<lambda>a b. \<not> covers (keyOf a) (keyOf b)) (rooms s)"
  by (simp add: dedupInv_def roomKeys_def sorted_wrt_map)

text \<open>
  C1. In every store that a sequence of calls, registrations and changes of the
  environment can produce from the empty store: when an active direct room \<open>r\<close> with the
  participants \<open>{u, p}\<close> is stored, the record store is available and \<open>p\<close> is a
  registered user, \<open>createRoom\<close> by \<open>u\<close> for a direct room with \<open>p\<close> returns
  \<open>r\<close> and leaves the store as it is, so it creates no room; and for every pair
  \<open>{a, b}\<close> at most one active direct room with exactly these participants is stored.
  The calls of a sequence run one after the other.
\<close>

theorem direct_room_dedup:
  assumes "reachable s"
  shows "(\<forall>r u p n dd.
            r \<in> set (rooms s) \<and> rtype r = Direct \<and> isActive r \<and> set (participants r) = {u, p} \<and>
            dbUp s \<and> p \<in> set (users s)
            \<longrightarrow> createRoom u \<lparr>dname = n, dtype = Direct, ddescription = dd, participantIds = [p]\<rparr> s
                  = (Inr r, s)) \<and>
         (\<forall>a b. length (filter (\<lambda>r. rtype r = Direct \<and> isActive r \<and> set (participants r) = {a, b})
                          (rooms s)) \<le> 1)"
proof -
  have inv: "dedupInv s" using assms by (rule reachable_dedupInv)
  have sorted: "sorted_wrt (\<lambda>a b. \<not> covers (keyOf a) (keyOf b)) (rooms s)"
    using inv by (rule dedupInv_sorted)
  have first: "createRoom u \<lparr>dname = n, dtype = Direct, ddescription = dd, participantIds = [p]\<rparr> s
                 = (Inr r, s)"
    if r: "r \<in> set (rooms s)" and ty: "rtype r = Direct" and ps: "set (participants r) = {u, p}"
      and up: "dbUp s" and user: "p \<in> set (users s)" for r u p n dd
  proof -
    have match: "directRoomOf u p r" using ty ps by (simp add: directRoomOf_def)
    have cov: "covers (keyOf y) (keyOf r)" if "directRoomOf u p y" for y
      using that ty ps by (simp add: directRoomOf_def covers_def keyOf_def directKey_def)
    have found: "find (directRoomOf u p) (rooms s) = Some r"
      using find_first_uncovered [of "rooms s" r "directRoomOf u p", OF sorted r match] cov by blast
    have one: "length (filter (\<lambda>x. x = p) (users s)) = Suc 0"
      using inv user by (simp add: dedupInv_def filter_single_distinct)
    show ?thesis
      using up found one
      by (simp add: createRoom_def io_defs User_find_def Room_findOne_def)
  qed
  have second: "length (filter (\<lambda>r. rtype r = Direct \<and> isActive r \<and> set (participants r) = {a, b})
                          (rooms s)) \<le> 1" for a b
    by (rule at_most_one_uncovered [OF sorted])
       (simp add: covers_def keyOf_def directKey_def)
  show ?thesis using first second by blast
qed

lemma directStore_reachable: "reachable directStore"
proof -
  let ?s0 = "emptyStore multikeyUnique"
  let ?s1 = "?s0\<lparr>users := users ?s0 @ [1]\<rparr>"
  let ?s2 = "?s1\<lparr>users := users ?s1 @ [2]\<rparr>"
  have "reachable ?s0" by (rule reachable.start)
  then have "reachable ?s1" by (rule reachable.register) (simp add: emptyStore_def)
  then have "reachable ?s2" by (rule reachable.register) (simp add: emptyStore_def)
  then have r: "reachable (snd (run (CreateRoom 1 (directWith 2)) ?s2))" by (rule reachable.call)
  have s2: "?s2 = \<lparr>users = [1, 2], rooms = [], messages = [], kv = [], sets = [], dbUp = True,
                   redisUp = True, uniqueIndex = multikeyUnique\<rparr>"
    by (simp add: emptyStore_def)
  have "createRoom 1 (directWith 2) ?s2 = (Inr directRoom, directStore)"
    unfolding s2
    by (simp add: createRoom_def io_defs User_find_def Room_findOne_def
          Room_create_def Room_new_def room_preValidate_def room_nameValid_def
          room_descriptionValid_def room_preSave_def freshId_def multikeyUnique_def
          redis_sAdd_def directRoomOf_def directWith_def directStore_def
          directRoom_def Let_def)
  then have "snd (run (CreateRoom 1 (directWith 2)) ?s2) = directStore"
    by (simp add: outcomeOf_def)
  then show ?thesis using r by simp
qed

theorem direct_room_dedup_witness:
  "createRoom 1 (directWith 2) directStore = (Inr directRoom, directStore) \<and>
   createRoom 2 (directWith 1) directStore = (Inr directRoom, directStore) \<and>
   length (filter (\<lambda>r. rtype r = Direct \<and> isActive r \<and> set (participants r) = {1, 2})
             (rooms directStore)) \<le> 1"
proof -
  have facts: "directRoom \<in> set (rooms directStore)" "rtype directRoom = Direct"
    "isActive directRoom" "dbUp directStore" "2 \<in> set (users directStore)"
    "1 \<in> set (users directStore)"
    by (simp_all add: directStore_def directRoom_def)
  have p12: "set (participants directRoom) = {1, 2}" by (simp add: directRoom_def)
  have p21: "set (participants directRoom) = {2, 1}" by (auto simp: directRoom_def)
  note dedup = direct_room_dedup [OF directStore_reachable]
  have a: "createRoom 1 (directWith 2) directStore = (Inr directRoom, directStore)"
    using dedup [THEN conjunct1, rule_format, of directRoom 1 2 None None] facts p12
    by (simp add: directWith_def)
  have b: "createRoom 2 (directWith 1) directStore = (Inr directRoom, directStore)"
    using dedup [THEN conjunct1, rule_format, of directRoom 2 1 None None] facts p21
    by (simp add: directWith_def)
  have c: "length (filter (\<lambda>r. rtype r = Direct \<and> isActive r \<and> set (participants r) = {1, 2})
             (rooms directStore)) \<le> 1"
    using dedup [THEN conjunct2, rule_format, of 1 2] .
  show ?thesis using a b c by simp
qed

subsection \<open>The creator of a new room\<close>

lemma sAddAll_rooms: "sAddAll ps i s = (res, s') \<Longrightarrow> rooms s' = rooms s"
proof (induction ps arbitrary: s)
  case Nil
  then show ?case by simp
next
  case (Cons p ps)
  then show ?case
    by (auto simp: redis_sAdd_def split: if_splits)
qed

lemma direct_tail:
  "bnd (redis_sAdd a i) (\<lambda>_. bnd (redis_sAdd b i) (\<lambda>_. ret room)) s1 = (Inr r, s')
     \<Longrightarrow> r = room \<and> rooms s' = rooms s1"
  by (auto simp: io_defs redis_sAdd_def split: if_splits)

lemma group_tail:
  "bnd (sAddAll ps i) (\<lambda>_. ret room) s1 = (Inr r, s') \<Longrightarrow> r = room \<and> rooms s' = rooms s1"
  using sAddAll_rooms [of ps i s1]
  by (cases "sAddAll ps i s1") (auto simp: io_defs split: sum.splits)

lemma created_fields:
  "createdBy (room_preSave True (Room_new n t d ps ads c)) = c \<and>
   c \<in> set (participants (room_preSave True (Room_new n t d ps ads c))) \<and>
   c \<in> set (admins (room_preSave True (Room_new n t d ps ads c))) \<and>
   rtype (room_preSave True (Room_new n t d ps ads c)) = t"
  by (simp add: room_preSave_def Room_new_def Let_def)

lemma bnd_create_result:
  assumes run: "bnd (Room_create r0) f s = (Inr r, s')"
    and tail: "\<And>room s1. f room s1 = (Inr r, s') \<Longrightarrow> r = room \<and> rooms s' = rooms s1"
  shows "r = (room_preSave True r0)\<lparr>rid := freshId (map rid (rooms s))\<rparr> \<and> rooms s' = rooms s @ [r]"
proof -
  obtain res s1 where c: "Room_create r0 s = (res, s1)" by (cases "Room_create r0 s")
  let ?r1 = "(room_preSave True r0)\<lparr>rid := freshId (map rid (rooms s))\<rparr>"
  from Room_create_result [OF c] show ?thesis
  proof
    assume "\<exists>e. res = Inl e \<and> s1 = s"
    then show ?thesis using c run by (auto simp: bnd_def)
  next
    assume ok: "res = Inr ?r1 \<and> s1 = s\<lparr>rooms := rooms s @ [?r1]\<rparr>"
    then have "f ?r1 s1 = (Inr r, s')" using c run by (simp add: bnd_def)
    from tail [OF this] show ?thesis using ok by simp
  qed
qed

text \<open>
  C5. When \<open>createRoom\<close> returns a room that was not stored before, whatever the
  requested type, that room is appended to the stored rooms, has the requested type and
  the caller as \<open>createdBy\<close>, and the caller is among its participants and among its
  admins.
\<close>

theorem createRoom_creator_member:
  assumes run: "createRoom u d s = (Inr r, s')" and new: "r \<notin> set (rooms s)"
  shows "createdBy r = u \<and> u \<in> set (participants r) \<and> u \<in> set (admins r) \<and>
         rtype r = dtype d \<and> rooms s' = rooms s @ [r]"
proof -
  have up: "dbUp s" using run by (auto simp: createRoom_def io_defs User_find_def split: if_splits)
  have len: "length (filter (\<lambda>x. x \<in> set (participantIds d)) (users s)) = length (participantIds d)"
    using run up by (auto simp: createRoom_def io_defs User_find_def split: if_splits)
  show ?thesis
  proof (cases "dtype d = Direct")
    case direct: True
    then obtain other where other: "participantIds d = [other]"
      using run up len
      by (cases "participantIds d"; cases "tl (participantIds d)")
         (auto simp: createRoom_def io_defs User_find_def split: if_splits)
    have none: "find (directRoomOf u other) (rooms s) = None"
    proof (cases "find (directRoomOf u other) (rooms s)")
      case None
      then show ?thesis .
    next
      case (Some r0)
      then have "r = r0" using run up len direct other
        by (simp add: createRoom_def io_defs User_find_def Room_findOne_def)
      then show ?thesis using Some new by (auto simp: find_Some_iff)
    qed
    let ?f = "\<lambda>room. bnd (redis_sAdd (USER_ROOMS u) (rid room)) (\<lambda>_.
                    bnd (redis_sAdd (USER_ROOMS other) (rid room)) (\<lambda>_. ret room))"
    have runs: "bnd (Room_create (Room_new None Direct [] [u, other] [] u)) ?f s = (Inr r, s')"
      using run up len direct other none
      by (simp add: createRoom_def User_find_def Room_findOne_def bnd_def)
    have "r = (room_preSave True (Room_new None Direct [] [u, other] [] u))
                \<lparr>rid := freshId (map rid (rooms s))\<rparr> \<and> rooms s' = rooms s @ [r]"
    proof (rule bnd_create_result [where f = ?f])
      show "bnd (Room_create (Room_new None Direct [] [u, other] [] u)) ?f s = (Inr r, s')"
        by (rule runs)
    next
      fix room s1
      assume "?f room s1 = (Inr r, s')"
      then show "r = room \<and> rooms s' = rooms s1" by (rule direct_tail)
    qed
    then show ?thesis using direct by (simp add: created_fields)
  next
    case group: False
    let ?f = "\<lambda>room. bnd (sAddAll (participantIds d @ [u]) (rid room)) (\<lambda>_. ret room)"
    let ?r0 = "Room_new (dname d) (dtype d) (case ddescription d of None \<Rightarrow> [] | Some x \<Rightarrow> x)
                 (participantIds d @ [u]) [u] u"
    have runs: "bnd (Room_create ?r0) ?f s = (Inr r, s')"
      using run up len group
      by (auto simp: createRoom_def User_find_def bnd_def throw_def split: if_splits)
    have "r = (room_preSave True ?r0)\<lparr>rid := freshId (map rid (rooms s))\<rparr> \<and>
          rooms s' = rooms s @ [r]"
    proof (rule bnd_create_result [where f = ?f])
      show "bnd (Room_create ?r0) ?f s = (Inr r, s')" by (rule runs)
    next
      fix room s1
      assume "?f room s1 = (Inr r, s')"
      then show "r = room \<and> rooms s' = rooms s1" by (rule group_tail)
    qed
    then show ?thesis by (simp add: created_fields)
  qed
qed

lemma trim_dev: "trim ''dev'' = ''dev''"
  by (simp add: trim_def isWhiteSpace_def)

theorem createRoom_creator_member_witness:
  "fst (createRoom 3 (directWith 2) demoStore) = Inr newDirect \<and>
   createdBy newDirect = 3 \<and> 3 \<in> set (participants newDirect) \<and> 3 \<in> set (admins newDirect) \<and>
   fst (createRoom 3 (groupDTO Group) demoStore) = Inr (newGroup Group) \<and>
   createdBy (newGroup Group) = 3 \<and> 3 \<in> set (participants (newGroup Group)) \<and>
   3 \<in> set (admins (newGroup Group)) \<and>
   fst (createRoom 3 (groupDTO Channel) demoStore) = Inr (newGroup Channel) \<and>
   createdBy (newGroup Channel) = 3 \<and> 3 \<in> set (participants (newGroup Channel)) \<and>
   3 \<in> set (admins (newGroup Channel))"
proof -
  have d: "fst (createRoom 3 (directWith 2) demoStore) = Inr newDirect"
    by (simp add: createRoom_def io_defs User_find_def Room_findOne_def
          Room_create_def Room_new_def room_preValidate_def room_nameValid_def
          room_descriptionValid_def room_preSave_def freshId_def multikeyUnique_def
          redis_sAdd_def directRoomOf_def directWith_def demoStore_def demoRoom_def
          newDirect_def Let_def)
  have g: "fst (createRoom 3 (groupDTO t) demoStore) = Inr (newGroup t)" if "t \<noteq> Direct" for t
    using that
    by (simp add: createRoom_def io_defs User_find_def
          Room_create_def Room_new_def room_preValidate_def room_nameValid_def
          room_descriptionValid_def room_preSave_def freshId_def multikeyUnique_def
          redis_sAdd_def groupDTO_def demoStore_def demoRoom_def truthy_def trim_dev
          newGroup_def Let_def)
  have fresh: "newDirect \<notin> set (rooms demoStore)" "newGroup t \<notin> set (rooms demoStore)" for t
    by (simp_all add: demoStore_def demoRoom_def newDirect_def newGroup_def)
  have rd: "createRoom 3 (directWith 2) demoStore
              = (Inr newDirect, snd (createRoom 3 (directWith 2) demoStore))"
    using d by (metis prod.collapse)
  have rg: "createRoom 3 (groupDTO Group) demoStore
              = (Inr (newGroup Group), snd (createRoom 3 (groupDTO Group) demoStore))"
    using g [of Group] by (metis prod.collapse room_type.distinct(1))
  have rc: "createRoom 3 (groupDTO Channel) demoStore
              = (Inr (newGroup Channel), snd (createRoom 3 (groupDTO Channel) demoStore))"
    using g [of Channel] by (metis prod.collapse room_type.distinct(3))
  show ?thesis
    using createRoom_creator_member [OF rd fresh(1)] createRoom_creator_member [OF rg fresh(2)]
      createRoom_creator_member [OF rc fresh(2)] d g [of Group] g [of Channel]
    by simp
qed

end
